theory Spec2Isabelle
  imports Main
begin

section \<open>The lending back end: data model\<close>

text \<open>
  The program is one Express application, \<^verbatim>\<open>src/Lending.js\<close>, over three Mongoose
  collections. The three transaction routes are the Reservation Coordinator of the
  specification:
  \<^item> \<^verbatim>\<open>POST /api/transactions\<close> (lines 314-369) is \<open>RequestBorrow\<close>;
  \<^item> \<^verbatim>\<open>PUT /api/transactions/:id\<close> (lines 451-493) is \<open>DecideRequest\<close>;
  \<^item> \<^verbatim>\<open>POST /api/transactions/cancel\<close> (lines 496-590) is \<open>CancelOrReturn\<close>.

  A collection is a list of documents in insertion order; \<^verbatim>\<open>findOne\<close> is the first
  document that matches, \<^verbatim>\<open>findOneAndUpdate\<close> and \<^verbatim>\<open>save\<close> of a found document rewrite
  that first match in place, \<^verbatim>\<open>updateMany\<close> rewrites every match, \<^verbatim>\<open>save\<close> of a new
  document appends it. Every handler runs from its first line to its response without
  interleaving (one request at a time). \<^verbatim>\<open>uuid()\<close> and \<^verbatim>\<open>new Date()\<close> are arguments of
  the handler that calls them. Ids are strings; a date is a number of milliseconds.

  \<^verbatim>\<open>save\<close> of a new document first runs the validators of its schema: every
  \<^verbatim>\<open>required: true\<close> string must be non-empty. A refused save throws, and the handler's
  \<^verbatim>\<open>catch\<close> block answers HTTP 500 with nothing stored. A found document was validated
  when it was stored, so saving it again is accepted, and the store is taken to accept
  every write that passes validation (\<^verbatim>\<open>uuid()\<close> returns an id that is not in use). The
  \<^verbatim>\<open>lastUpdated\<close> field that the cancel route sets is in neither schema and is not stored.
\<close>

datatype item_status = Available | Borrowed

datatype tx_status = Pending | Approved | Rejected | Cancelled

record user =
  u_id :: string
  u_name :: string
  u_email :: string
  u_password :: string

record item =
  i_id :: string
  i_name :: string
  i_description :: string
  i_ownerId :: string
  i_status :: item_status

record transaction =
  t_id :: string
  t_itemId :: string
  t_lenderId :: string
  t_borrowerId :: string
  t_status :: tx_status
  t_startDate :: nat
  t_endDate :: "nat option"
  t_borrowDate :: "nat option"

record db =
  users :: "user list"
  items :: "item list"
  transactions :: "transaction list"

text \<open>
  The failure responses of the three routes. Each constructor is one
  \<^verbatim>\<open>res.status(c).json({ message: m })\<close> of the source; \<open>status_code\<close> and \<open>message\<close>
  give \<open>c\<close> and \<open>m\<close>. The names are the error kinds of the specification; \<open>Internal\<close>
  is the \<^verbatim>\<open>catch\<close> block of \<^verbatim>\<open>POST /api/transactions\<close> (lines 362-368).
\<close>

datatype error =
    NotFound_item
  | Conflict_self_borrow
  | Conflict_active_claim_exists
  | NotFound_transaction
  | Forbidden
  | InvalidArgument
  | NotFound_active_transaction
  | Internal

fun status_code :: "error \<Rightarrow> nat" where
  "status_code NotFound_item = 404"
| "status_code Conflict_self_borrow = 400"
| "status_code Conflict_active_claim_exists = 400"
| "status_code NotFound_transaction = 404"
| "status_code Forbidden = 403"
| "status_code InvalidArgument = 400"
| "status_code NotFound_active_transaction = 404"
| "status_code Internal = 500"

fun message :: "error \<Rightarrow> string" where
  "message NotFound_item = ''Item not found''"
| "message Conflict_self_borrow = ''You cannot borrow your own item''"
| "message Conflict_active_claim_exists =
     ''This item already has an active request or is borrowed''"
| "message NotFound_transaction = ''Transaction not found''"
| "message Forbidden = ''Only the item owner can approve/reject requests''"
| "message InvalidArgument = ''Invalid status''"
| "message NotFound_active_transaction = ''No active transaction found''"
| "message Internal = ''Error creating borrow request''"

section \<open>Store primitives\<close>

text \<open>\<^verbatim>\<open>findOne(filter)\<close> is \<^const>\<open>find\<close>; the in-place rewrite of the first match:\<close>

fun update_first :: "('a \<Rightarrow> bool) \<Rightarrow> ('a \<Rightarrow> 'a) \<Rightarrow> 'a list \<Rightarrow> 'a list" where
  "update_first P f [] = []"
| "update_first P f (x # xs) = (if P x then f x # xs else x # update_first P f xs)"

text \<open>\<^verbatim>\<open>updateMany(filter, update)\<close> rewrites every match.\<close>

definition update_many :: "('a \<Rightarrow> bool) \<Rightarrow> ('a \<Rightarrow> 'a) \<Rightarrow> 'a list \<Rightarrow> 'a list" where
  "update_many P f xs = map (\<lambda>x. if P x then f x else x) xs"

text \<open>The filter \<^verbatim>\<open>status: { $in: ['pending', 'approved'] }\<close>.\<close>

definition is_active :: "transaction \<Rightarrow> bool" where
  "is_active t = (t_status t = Pending \<or> t_status t = Approved)"

text \<open>\<^verbatim>\<open>['approved', 'rejected'].includes(status)\<close>, with the stored value.\<close>

definition decision_of :: "string \<Rightarrow> tx_status option" where
  "decision_of status =
     (if status = ''approved'' then Some Approved
      else if status = ''rejected'' then Some Rejected
      else None)"

text \<open>The validators of the transaction schema (lines 68-81): \<^verbatim>\<open>required: true\<close> on the
  string paths \<^verbatim>\<open>id\<close>, \<^verbatim>\<open>itemId\<close>, \<^verbatim>\<open>lenderId\<close> and \<^verbatim>\<open>borrowerId\<close>; a required string
  passes when it is not empty. The status written by the handlers is always in the
  schema's enumeration.\<close>

definition required :: "string \<Rightarrow> bool" where
  "required v = (v \<noteq> [])"

definition validate_transaction :: "transaction \<Rightarrow> bool" where
  "validate_transaction t =
     (required (t_id t) \<and> required (t_itemId t) \<and> required (t_lenderId t) \<and>
      required (t_borrowerId t))"

section \<open>The three routes\<close>

text \<open>\<^verbatim>\<open>POST /api/transactions\<close>, body \<open>{itemId, borrowerId}\<close>; answers 201 with the
  created transaction, or 500 from the \<^verbatim>\<open>catch\<close> block when \<^verbatim>\<open>transaction.save()\<close>
  (line 355) refuses the new document.\<close>

definition post_transactions ::
  "db \<Rightarrow> string \<Rightarrow> string \<Rightarrow> string \<Rightarrow> nat \<Rightarrow> (error + transaction) \<times> db" where
  "post_transactions s itemId borrowerId uuid now =
     (case find (\<lambda>it. i_id it = itemId) (items s) of
        None \<Rightarrow> (Inl NotFound_item, s)
      | Some item \<Rightarrow>
          if i_ownerId item = borrowerId then (Inl Conflict_self_borrow, s)
          else
            (case find (\<lambda>t. t_itemId t = itemId \<and> is_active t) (transactions s) of
               Some existingTransaction \<Rightarrow> (Inl Conflict_active_claim_exists, s)
             | None \<Rightarrow>
                 let transaction =
                       \<lparr>t_id = uuid, t_itemId = itemId, t_lenderId = i_ownerId item,
                        t_borrowerId = borrowerId, t_status = Pending,
                        t_startDate = now, t_endDate = None, t_borrowDate = None\<rparr>
                 in if validate_transaction transaction
                    then (Inr transaction,
                          s\<lparr>transactions := transactions s @ [transaction]\<rparr>)
                    else (Inl Internal, s)))"

text \<open>\<^verbatim>\<open>PUT /api/transactions/:id\<close>, body \<open>{status, userId}\<close>; answers 200 with the
  updated transaction. The item is rewritten before the transaction is saved.\<close>

definition put_transaction ::
  "db \<Rightarrow> string \<Rightarrow> string \<Rightarrow> string \<Rightarrow> nat \<Rightarrow> (error + transaction) \<times> db" where
  "put_transaction s id' status userId now =
     (case find (\<lambda>t. t_id t = id') (transactions s) of
        None \<Rightarrow> (Inl NotFound_transaction, s)
      | Some transaction \<Rightarrow>
          if t_lenderId transaction \<noteq> userId then (Inl Forbidden, s)
          else
            (case decision_of status of
               None \<Rightarrow> (Inl InvalidArgument, s)
             | Some st \<Rightarrow>
                 let t1 = transaction\<lparr>t_status := st\<rparr>;
                     t2 = (if st = Approved then t1\<lparr>t_borrowDate := Some now\<rparr> else t1);
                     items' =
                       (if st = Approved
                        then update_first (\<lambda>it. i_id it = t_itemId transaction)
                               (\<lambda>it. it\<lparr>i_status := Borrowed\<rparr>) (items s)
                        else items s)
                 in (Inr t2,
                     s\<lparr>items := items',
                       transactions :=
                         update_first (\<lambda>t. t_id t = id') (\<lambda>_. t2) (transactions s)\<rparr>)))"

text \<open>\<^verbatim>\<open>POST /api/transactions/cancel\<close>, body \<open>{itemId, borrowerId}\<close>; answers 200 with
  a summary of the cancelled transaction and of the item, each user looked up for
  display.\<close>

record cancel_response =
  r_transaction_id :: string
  r_transaction_itemId :: string
  r_transaction_status :: tx_status
  r_borrower :: "user option"
  r_lender :: "user option"
  r_item_id :: string
  r_item_name :: string
  r_item_status :: item_status

definition post_transactions_cancel ::
  "db \<Rightarrow> string \<Rightarrow> string \<Rightarrow> (error + cancel_response) \<times> db" where
  "post_transactions_cancel s itemId borrowerId =
     (let mine = (\<lambda>t. t_itemId t = itemId \<and> t_borrowerId t = borrowerId \<and> is_active t)
      in case find mine (transactions s) of
           None \<Rightarrow> (Inl NotFound_active_transaction, s)
         | Some transaction \<Rightarrow>
             let s1 = s\<lparr>transactions :=
                          update_first mine (\<lambda>t. t\<lparr>t_status := Cancelled\<rparr>) (transactions s)\<rparr>;
                 s2 = s1\<lparr>items :=
                          update_first (\<lambda>it. i_id it = itemId)
                            (\<lambda>it. it\<lparr>i_status := Available\<rparr>) (items s1)\<rparr>
             in case find (\<lambda>it. i_id it = itemId) (items s2) of
                  None \<Rightarrow> (Inl NotFound_item, s2)
                | Some item \<Rightarrow>
                    let s3 = s2\<lparr>transactions :=
                                 update_many (\<lambda>t. t_itemId t = itemId \<and> is_active t)
                                   (\<lambda>t. t\<lparr>t_status := Cancelled\<rparr>) (transactions s2)\<rparr>;
                        borrower = find (\<lambda>u. u_id u = borrowerId) (users s3);
                        lender = find (\<lambda>u. u_id u = t_lenderId transaction) (users s3)
                    in (Inr \<lparr>r_transaction_id = t_id transaction,
                             r_transaction_itemId = t_itemId transaction,
                             r_transaction_status = Cancelled,
                             r_borrower = borrower, r_lender = lender,
                             r_item_id = i_id item, r_item_name = i_name item,
                             r_item_status = Available\<rparr>,
                        s3))"

section \<open>Sequences of Coordinator operations\<close>

datatype op =
    RequestBorrow string string string nat
  | DecideRequest string string string nat
  | CancelOrReturn string string

text \<open>The store after one operation, whatever the response.\<close>

fun step :: "db \<Rightarrow> op \<Rightarrow> db" where
  "step s (RequestBorrow itemId borrowerId uuid now) =
     snd (post_transactions s itemId borrowerId uuid now)"
| "step s (DecideRequest id' userId status now) =
     snd (put_transaction s id' status userId now)"
| "step s (CancelOrReturn itemId borrowerId) =
     snd (post_transactions_cancel s itemId borrowerId)"

definition run :: "db \<Rightarrow> op list \<Rightarrow> db" where
  "run s ops = foldl step s ops"

section \<open>Properties of a store\<close>

text \<open>
  An operation is an approval when it is a \<open>DecideRequest\<close> whose decision is the string
  \<^verbatim>\<open>approved\<close>.
\<close>

fun is_approval :: "op \<Rightarrow> bool" where
  "is_approval (DecideRequest id' userId status now) = (status = ''approved'')"
| "is_approval _ = False"

text \<open>
  Invariant I1 is about the active claims on an item: its transactions with status
  pending or approved, of which there should be at most one.
\<close>

definition claims_on :: "string \<Rightarrow> db \<Rightarrow> transaction list" where
  "claims_on itemId s = filter (\<lambda>t. t_itemId t = itemId \<and> is_active t) (transactions s)"

text \<open>
  Invariant I2, for stores whose item ids are unique (the \<^verbatim>\<open>unique: true\<close> index of the
  item schema): an item is borrowed exactly when some transaction for it is approved.
\<close>

definition unique_item_ids :: "db \<Rightarrow> bool" where
  "unique_item_ids s = distinct (map i_id (items s))"

definition approved_for :: "transaction list \<Rightarrow> string \<Rightarrow> bool" where
  "approved_for ts itemId = (\<exists>t\<in>set ts. t_itemId t = itemId \<and> t_status t = Approved)"

definition borrowed_iff_approved :: "db \<Rightarrow> bool" where
  "borrowed_iff_approved s =
     (\<forall>it\<in>set (items s).
        (i_status it = Borrowed) =
        (\<exists>t\<in>set (transactions s). t_itemId t = i_id it \<and> t_status t = Approved))"

text \<open>
  The decide route never reads the current status of the transaction it rewrites. Two
  disciplines on its callers: an approval only reaches a transaction that is still
  active, and a rejection never reaches a transaction that is approved. \<open>all_steps G\<close>
  holds of a sequence when each operation satisfies \<open>G\<close> in the store it runs on.
\<close>

fun approves_only_active :: "db \<Rightarrow> op \<Rightarrow> bool" where
  "approves_only_active s (DecideRequest id' userId status now) =
     (status = ''approved'' \<longrightarrow>
        (case find (\<lambda>t. t_id t = id') (transactions s) of
           None \<Rightarrow> True
         | Some t \<Rightarrow> is_active t))"
| "approves_only_active s _ = True"

fun rejects_only_unapproved :: "db \<Rightarrow> op \<Rightarrow> bool" where
  "rejects_only_unapproved s (DecideRequest id' userId status now) =
     (status = ''rejected'' \<longrightarrow>
        (case find (\<lambda>t. t_id t = id') (transactions s) of
           None \<Rightarrow> True
         | Some t \<Rightarrow> t_status t \<noteq> Approved))"
| "rejects_only_unapproved s _ = True"

fun all_steps :: "(db \<Rightarrow> op \<Rightarrow> bool) \<Rightarrow> db \<Rightarrow> op list \<Rightarrow> bool" where
  "all_steps G s [] = True"
| "all_steps G s (x # ops) = (G s x \<and> all_steps G (step s x) ops)"

section \<open>Example stores\<close>

text \<open>
  Two users, Ann (\<^verbatim>\<open>U1\<close>) who owns the drill \<^verbatim>\<open>I1\<close>, and Bob (\<^verbatim>\<open>U2\<close>); \<open>request\<close> is a
  transaction on the drill, \<open>shop\<close> a store with the drill in a given status, and
  \<open>orphaned\<close> a store whose transactions name an item that is not in the item
  collection.
\<close>

definition ann :: user where
  "ann = \<lparr>u_id = ''U1'', u_name = ''Ann'', u_email = ''ann@example.org'', u_password = ''x''\<rparr>"

definition bob :: user where
  "bob = \<lparr>u_id = ''U2'', u_name = ''Bob'', u_email = ''bob@example.org'', u_password = ''y''\<rparr>"

definition drill :: item where
  "drill = \<lparr>i_id = ''I1'', i_name = ''Drill'', i_description = ''Cordless drill'',
            i_ownerId = ''U1'', i_status = Available\<rparr>"

definition request :: "string \<Rightarrow> string \<Rightarrow> tx_status \<Rightarrow> transaction" where
  "request tid borrower st =
     \<lparr>t_id = tid, t_itemId = ''I1'', t_lenderId = ''U1'', t_borrowerId = borrower,
      t_status = st, t_startDate = 5, t_endDate = None, t_borrowDate = None\<rparr>"

definition shop :: "item_status \<Rightarrow> transaction list \<Rightarrow> db" where
  "shop st ts = \<lparr>users = [ann, bob], items = [drill\<lparr>i_status := st\<rparr>], transactions = ts\<rparr>"

definition orphaned :: "transaction list \<Rightarrow> db" where
  "orphaned ts = \<lparr>users = [ann, bob], items = [], transactions = ts\<rparr>"

lemmas example_defs = ann_def bob_def drill_def request_def shop_def orphaned_def

lemmas route_defs = post_transactions_def put_transaction_def post_transactions_cancel_def
  update_many_def is_active_def decision_of_def run_def Let_def required_def
  validate_transaction_def

section \<open>Lists and the store primitives\<close>

lemma find_None_iff_set: "find P xs = None \<longleftrightarrow> (\<forall>x\<in>set xs. \<not> P x)"
  by (induction xs) auto

lemma find_Some_split:
  "find P xs = Some x \<Longrightarrow> \<exists>ys zs. xs = ys @ x # zs \<and> P x \<and> (\<forall>y\<in>set ys. \<not> P y)"
proof (induction xs)
  case Nil
  then show ?case by simp
next
  case (Cons a xs)
  show ?case
  proof (cases "P a")
    case True
    with Cons.prems have "a = x" by simp
    with True show ?thesis by (intro exI[of _ "[]"] exI[of _ xs]) simp
  next
    case False
    with Cons obtain ys zs where "xs = ys @ x # zs" "P x" "\<forall>y\<in>set ys. \<not> P y" by auto
    with False show ?thesis by (intro exI[of _ "a # ys"] exI[of _ zs]) simp
  qed
qed

lemma find_split: "(\<forall>y\<in>set ys. \<not> P y) \<Longrightarrow> P x \<Longrightarrow> find P (ys @ x # zs) = Some x"
  by (induction ys) auto

lemma update_first_split:
  "(\<forall>y\<in>set ys. \<not> P y) \<Longrightarrow> P x \<Longrightarrow> update_first P f (ys @ x # zs) = ys @ f x # zs"
  by (induction ys) auto

lemma update_first_none: "(\<forall>x\<in>set xs. \<not> P x) \<Longrightarrow> update_first P f xs = xs"
  by (induction xs) auto

lemma length_update_first: "length (update_first P f xs) = length xs"
  by (induction xs) auto

lemma update_first_distinct_key:
  "distinct (map g xs) \<Longrightarrow>
   update_first (\<lambda>x. g x = k) f xs = map (\<lambda>x. if g x = k then f x else x) xs"
proof (induction xs)
  case Nil
  then show ?case by simp
next
  case (Cons a xs)
  show ?case
  proof (cases "g a = k")
    case True
    from Cons.prems have "g a \<notin> g ` set xs" by simp
    with True have "\<forall>x\<in>set xs. g x \<noteq> k" by blast
    then have "map (\<lambda>x. if g x = k then f x else x) xs = xs" by (simp add: map_idI)
    with True show ?thesis by simp
  next
    case False
    with Cons show ?thesis by simp
  qed
qed

lemma find_update_first:
  "(\<And>x. P (f x) = P x) \<Longrightarrow> find P (update_first P f xs) = map_option f (find P xs)"
  by (induction xs) auto

lemma nth_update_first:
  "k < length xs \<Longrightarrow> update_first P f xs ! k = xs ! k \<or> update_first P f xs ! k = f (xs ! k)"
proof (induction xs arbitrary: k)
  case Nil
  then show ?case by simp
next
  case (Cons a xs)
  then show ?case by (cases k) auto
qed

lemma nth_update_first_other:
  "k < length xs \<Longrightarrow> \<not> P (xs ! k) \<Longrightarrow> update_first P f xs ! k = xs ! k"
proof (induction xs arbitrary: k)
  case Nil
  then show ?case by simp
next
  case (Cons a xs)
  then show ?case by (cases k) auto
qed

lemma nth_update_many_other:
  "k < length xs \<Longrightarrow> \<not> P (xs ! k) \<Longrightarrow> update_many P f xs ! k = xs ! k"
  by (simp add: update_many_def)

lemma item_ids_update_first:
  "(\<And>x. g (f x) = g x) \<Longrightarrow> map g (update_first P f xs) = map g xs"
  by (induction xs) auto

lemma update_many_update_first:
  "(\<And>x. P x \<Longrightarrow> Q x) \<Longrightarrow> (\<And>x. Q x \<Longrightarrow> \<not> Q (f x)) \<Longrightarrow>
   update_many Q f (update_first P f xs) = update_many Q f xs"
  by (induction xs) (auto simp: update_many_def)

lemma ball_set_map: "(\<forall>y\<in>set (map F xs). P y) = (\<forall>x\<in>set xs. P (F x))"
  by simp

section \<open>The routes, case by case\<close>

text \<open>
  Each lemma is one path through a handler: the response and the store it leaves.
\<close>

lemma decision_of_cases:
  "decision_of status = Some st \<Longrightarrow>
   (status = ''approved'' \<and> st = Approved) \<or> (status = ''rejected'' \<and> st = Rejected)"
  by (auto simp: decision_of_def split: if_splits)

lemma post_state:
  "snd (post_transactions s itemId borrowerId uuid now) = s \<or>
   (find (\<lambda>t. t_itemId t = itemId \<and> is_active t) (transactions s) = None \<and>
    (\<exists>t. t_itemId t = itemId \<and> t_status t = Pending \<and>
         snd (post_transactions s itemId borrowerId uuid now)
           = s\<lparr>transactions := transactions s @ [t]\<rparr>))"
proof (cases "find (\<lambda>it. i_id it = itemId) (items s)")
  case None
  then show ?thesis by (simp add: post_transactions_def)
next
  case (Some item)
  show ?thesis
  proof (cases "i_ownerId item = borrowerId")
    case True
    with Some show ?thesis by (simp add: post_transactions_def)
  next
    case False
    show ?thesis
    proof (cases "find (\<lambda>t. t_itemId t = itemId \<and> is_active t) (transactions s)")
      case None
      let ?t = "\<lparr>t_id = uuid, t_itemId = itemId, t_lenderId = i_ownerId item,
                t_borrowerId = borrowerId, t_status = Pending, t_startDate = now,
                t_endDate = None, t_borrowDate = None\<rparr>"
      show ?thesis
      proof (cases "validate_transaction ?t")
        case True
        with Some False None
        have "snd (post_transactions s itemId borrowerId uuid now)
                = s\<lparr>transactions := transactions s @ [?t]\<rparr>"
          by (simp add: post_transactions_def Let_def)
        moreover have "t_itemId ?t = itemId \<and> t_status ?t = Pending" by simp
        ultimately show ?thesis using None by blast
      next
        case False
        with Some \<open>i_ownerId item \<noteq> borrowerId\<close> None show ?thesis
          by (simp add: post_transactions_def Let_def)
      qed
    next
      case (Some a)
      with \<open>find _ (items s) = Some item\<close> False show ?thesis
        by (simp add: post_transactions_def)
    qed
  qed
qed

lemma put_not_found:
  "find (\<lambda>t. t_id t = id') (transactions s) = None \<Longrightarrow>
   put_transaction s id' status userId now = (Inl NotFound_transaction, s)"
  by (simp add: put_transaction_def)

lemma put_forbidden:
  "find (\<lambda>t. t_id t = id') (transactions s) = Some t \<Longrightarrow> t_lenderId t \<noteq> userId \<Longrightarrow>
   put_transaction s id' status userId now = (Inl Forbidden, s)"
  by (simp add: put_transaction_def)

lemma put_invalid:
  "find (\<lambda>t. t_id t = id') (transactions s) = Some t \<Longrightarrow> t_lenderId t = userId \<Longrightarrow>
   decision_of status = None \<Longrightarrow>
   put_transaction s id' status userId now = (Inl InvalidArgument, s)"
  by (simp add: put_transaction_def)

lemma put_rejected:
  "find (\<lambda>t. t_id t = id') (transactions s) = Some t \<Longrightarrow> t_lenderId t = userId \<Longrightarrow>
   decision_of status = Some Rejected \<Longrightarrow>
   put_transaction s id' status userId now =
     (Inr (t\<lparr>t_status := Rejected\<rparr>),
      s\<lparr>transactions :=
          update_first (\<lambda>t. t_id t = id') (\<lambda>_. t\<lparr>t_status := Rejected\<rparr>) (transactions s)\<rparr>)"
  by (simp add: put_transaction_def Let_def)

lemma put_approved:
  "find (\<lambda>t. t_id t = id') (transactions s) = Some t \<Longrightarrow> t_lenderId t = userId \<Longrightarrow>
   decision_of status = Some Approved \<Longrightarrow>
   put_transaction s id' status userId now =
     (Inr (t\<lparr>t_status := Approved, t_borrowDate := Some now\<rparr>),
      s\<lparr>items := update_first (\<lambda>it. i_id it = t_itemId t)
                    (\<lambda>it. it\<lparr>i_status := Borrowed\<rparr>) (items s),
        transactions :=
          update_first (\<lambda>t. t_id t = id')
            (\<lambda>_. t\<lparr>t_status := Approved, t_borrowDate := Some now\<rparr>) (transactions s)\<rparr>)"
  by (simp add: put_transaction_def Let_def)

lemma put_state:
  "snd (put_transaction s id' status userId now) = s \<or>
   (\<exists>t ys zs t'.
      transactions s = ys @ t # zs \<and> find (\<lambda>t. t_id t = id') (transactions s) = Some t \<and>
      t_itemId t' = t_itemId t \<and> t_id t' = t_id t \<and>
      ((status = ''approved'' \<and> t_status t' = Approved \<and>
        snd (put_transaction s id' status userId now) =
          s\<lparr>items := update_first (\<lambda>it. i_id it = t_itemId t)
                        (\<lambda>it. it\<lparr>i_status := Borrowed\<rparr>) (items s),
            transactions := ys @ t' # zs\<rparr>) \<or>
       (status = ''rejected'' \<and> t_status t' = Rejected \<and>
        snd (put_transaction s id' status userId now) = s\<lparr>transactions := ys @ t' # zs\<rparr>)))"
proof (cases "find (\<lambda>t. t_id t = id') (transactions s)")
  case None
  then show ?thesis by (simp add: put_not_found)
next
  case (Some t)
  from find_Some_split[OF Some] obtain ys zs where
    split: "transactions s = ys @ t # zs" "t_id t = id'" "\<forall>y\<in>set ys. t_id y \<noteq> id'"
    by blast
  have upd: "update_first (\<lambda>t. t_id t = id') f (transactions s) = ys @ f t # zs" for f
    unfolding split(1) using split(2,3) by (intro update_first_split) simp_all
  show ?thesis
  proof (cases "t_lenderId t = userId")
    case False
    with Some show ?thesis by (simp add: put_forbidden)
  next
    case True
    show ?thesis
    proof (cases "decision_of status")
      case None
      with Some True show ?thesis by (simp add: put_invalid)
    next
      case (Some st)
      from decision_of_cases[OF Some] show ?thesis
      proof
        assume a: "status = ''approved'' \<and> st = Approved"
        let ?t' = "t\<lparr>t_status := Approved, t_borrowDate := Some now\<rparr>"
        from a Some have "decision_of status = Some Approved" by simp
        from put_approved[OF \<open>find _ _ = Some t\<close> True this, of now]
        have "snd (put_transaction s id' status userId now) =
          s\<lparr>items := update_first (\<lambda>it. i_id it = t_itemId t)
                        (\<lambda>it. it\<lparr>i_status := Borrowed\<rparr>) (items s),
            transactions := ys @ ?t' # zs\<rparr>"
          by (simp add: upd)
        moreover have "t_itemId ?t' = t_itemId t \<and> t_id ?t' = t_id t \<and> t_status ?t' = Approved"
          by simp
        ultimately show ?thesis
          using a split(1) \<open>find _ _ = Some t\<close> by blast
      next
        assume a: "status = ''rejected'' \<and> st = Rejected"
        let ?t' = "t\<lparr>t_status := Rejected\<rparr>"
        from a Some have "decision_of status = Some Rejected" by simp
        from put_rejected[OF \<open>find _ _ = Some t\<close> True this]
        have "snd (put_transaction s id' status userId now) = s\<lparr>transactions := ys @ ?t' # zs\<rparr>"
          by (simp add: upd)
        moreover have "t_itemId ?t' = t_itemId t \<and> t_id ?t' = t_id t \<and> t_status ?t' = Rejected"
          by simp
        ultimately show ?thesis
          using a split(1) \<open>find _ _ = Some t\<close> by blast
      qed
    qed
  qed
qed

lemma cancel_no_claim:
  "find (\<lambda>t. t_itemId t = itemId \<and> t_borrowerId t = borrowerId \<and> is_active t)
     (transactions s) = None \<Longrightarrow>
   post_transactions_cancel s itemId borrowerId = (Inl NotFound_active_transaction, s)"
  by (simp add: post_transactions_cancel_def)

lemma cancel_no_item:
  assumes "find (\<lambda>t. t_itemId t = itemId \<and> t_borrowerId t = borrowerId \<and> is_active t)
     (transactions s) = Some t"
    and "find (\<lambda>it. i_id it = itemId) (items s) = None"
  shows "post_transactions_cancel s itemId borrowerId =
     (Inl NotFound_item,
      s\<lparr>transactions :=
          update_first (\<lambda>t. t_itemId t = itemId \<and> t_borrowerId t = borrowerId \<and> is_active t)
            (\<lambda>t. t\<lparr>t_status := Cancelled\<rparr>) (transactions s)\<rparr>)"
proof -
  from assms(2) have "\<forall>it\<in>set (items s). i_id it \<noteq> itemId"
    by (simp add: find_None_iff_set)
  then have "update_first (\<lambda>it. i_id it = itemId) (\<lambda>it. it\<lparr>i_status := Available\<rparr>) (items s)
             = items s"
    by (simp add: update_first_none)
  with assms show ?thesis
    by (simp add: post_transactions_cancel_def Let_def)
qed

lemma cancel_done:
  assumes "find (\<lambda>t. t_itemId t = itemId \<and> t_borrowerId t = borrowerId \<and> is_active t)
     (transactions s) = Some t"
    and "find (\<lambda>it. i_id it = itemId) (items s) = Some item"
  shows "post_transactions_cancel s itemId borrowerId =
     (Inr \<lparr>r_transaction_id = t_id t, r_transaction_itemId = t_itemId t,
           r_transaction_status = Cancelled,
           r_borrower = find (\<lambda>u. u_id u = borrowerId) (users s),
           r_lender = find (\<lambda>u. u_id u = t_lenderId t) (users s),
           r_item_id = i_id item, r_item_name = i_name item,
           r_item_status = Available\<rparr>,
      s\<lparr>items := update_first (\<lambda>it. i_id it = itemId)
                    (\<lambda>it. it\<lparr>i_status := Available\<rparr>) (items s),
        transactions :=
          update_many (\<lambda>t. t_itemId t = itemId \<and> is_active t)
            (\<lambda>t. t\<lparr>t_status := Cancelled\<rparr>) (transactions s)\<rparr>)"
proof -
  have "find (\<lambda>it. i_id it = itemId)
          (update_first (\<lambda>it. i_id it = itemId) (\<lambda>it. it\<lparr>i_status := Available\<rparr>) (items s))
        = Some (item\<lparr>i_status := Available\<rparr>)"
    using assms(2) by (simp add: find_update_first)
  moreover have "update_many (\<lambda>t. t_itemId t = itemId \<and> is_active t)
            (\<lambda>t. t\<lparr>t_status := Cancelled\<rparr>)
            (update_first (\<lambda>t. t_itemId t = itemId \<and> t_borrowerId t = borrowerId \<and> is_active t)
               (\<lambda>t. t\<lparr>t_status := Cancelled\<rparr>) (transactions s))
          = update_many (\<lambda>t. t_itemId t = itemId \<and> is_active t)
            (\<lambda>t. t\<lparr>t_status := Cancelled\<rparr>) (transactions s)"
    by (rule update_many_update_first) (simp_all add: is_active_def)
  ultimately show ?thesis
    using assms(1) by (simp add: post_transactions_cancel_def Let_def)
qed

lemma cancel_success:
  assumes "post_transactions_cancel s itemId borrowerId = (Inr r, s')"
  shows "\<exists>t item.
           find (\<lambda>t. t_itemId t = itemId \<and> t_borrowerId t = borrowerId \<and> is_active t)
             (transactions s) = Some t \<and>
           find (\<lambda>it. i_id it = itemId) (items s) = Some item \<and>
           r_transaction_id r = t_id t \<and>
           s' = s\<lparr>items := update_first (\<lambda>it. i_id it = itemId)
                              (\<lambda>it. it\<lparr>i_status := Available\<rparr>) (items s),
                  transactions :=
                    update_many (\<lambda>t. t_itemId t = itemId \<and> is_active t)
                      (\<lambda>t. t\<lparr>t_status := Cancelled\<rparr>) (transactions s)\<rparr>"
proof (cases "find (\<lambda>t. t_itemId t = itemId \<and> t_borrowerId t = borrowerId \<and> is_active t)
             (transactions s)")
  case None
  from cancel_no_claim[OF None] assms show ?thesis by simp
next
  case (Some t)
  show ?thesis
  proof (cases "find (\<lambda>it. i_id it = itemId) (items s)")
    case None
    from cancel_no_item[OF Some None] assms show ?thesis by simp
  next
    case (Some item)
    from cancel_done[OF \<open>find _ (transactions s) = Some t\<close> Some] assms
    have "r_transaction_id r = t_id t \<and>
       s' = s\<lparr>items := update_first (\<lambda>it. i_id it = itemId)
                              (\<lambda>it. it\<lparr>i_status := Available\<rparr>) (items s),
                  transactions :=
                    update_many (\<lambda>t. t_itemId t = itemId \<and> is_active t)
                      (\<lambda>t. t\<lparr>t_status := Cancelled\<rparr>) (transactions s)\<rparr>"
      by auto
    with Some \<open>find _ (transactions s) = Some t\<close> show ?thesis by blast
  qed
qed

lemma not_active_cancelled: "\<not> is_active (t\<lparr>t_status := Cancelled\<rparr>)"
  by (simp add: is_active_def)

lemma update_many_cancel_inactive:
  assumes "t \<in> set (update_many (\<lambda>t. t_itemId t = itemId \<and> is_active t)
                      (\<lambda>t. t\<lparr>t_status := Cancelled\<rparr>) ts)"
    and "t_itemId t = itemId"
  shows "\<not> is_active t"
proof -
  from assms(1)
  have "t \<in> (\<lambda>x. if t_itemId x = itemId \<and> is_active x then x\<lparr>t_status := Cancelled\<rparr> else x)
               ` set ts"
    by (simp add: update_many_def)
  then obtain x where x: "x \<in> set ts"
    and t: "t = (if t_itemId x = itemId \<and> is_active x then x\<lparr>t_status := Cancelled\<rparr> else x)"
    by (rule imageE)
  show ?thesis
  proof (cases "t_itemId x = itemId \<and> is_active x")
    case True
    with t show ?thesis by (simp add: not_active_cancelled)
  next
    case False
    with t have "t = x" by simp
    with False assms(2) show ?thesis by simp
  qed
qed

lemma item_ids_step: "map i_id (items (step s x)) = map i_id (items s)"
proof (cases x)
  case (RequestBorrow itemId borrowerId uuid now)
  from post_state[of s itemId borrowerId uuid now]
  have "items (snd (post_transactions s itemId borrowerId uuid now)) = items s"
    by (elim disjE conjE exE) simp_all
  with RequestBorrow show ?thesis by simp
next
  case (DecideRequest id' userId status now)
  from put_state[of s id' status userId now]
  have "map i_id (items (snd (put_transaction s id' status userId now))) = map i_id (items s)"
    by (elim disjE conjE exE) (simp_all add: item_ids_update_first)
  with DecideRequest show ?thesis by simp
next
  case (CancelOrReturn itemId borrowerId)
  have "map i_id (items (snd (post_transactions_cancel s itemId borrowerId))) = map i_id (items s)"
  proof (cases "find (\<lambda>t. t_itemId t = itemId \<and> t_borrowerId t = borrowerId \<and> is_active t)
                (transactions s)")
    case None
    from cancel_no_claim[OF None] show ?thesis by simp
  next
    case (Some t)
    show ?thesis
    proof (cases "find (\<lambda>it. i_id it = itemId) (items s)")
      case None
      from cancel_no_item[OF Some None] show ?thesis by simp
    next
      case (Some item)
      from cancel_done[OF \<open>find _ (transactions s) = Some t\<close> Some] show ?thesis
        by (simp add: item_ids_update_first)
    qed
  qed
  with CancelOrReturn show ?thesis by simp
qed

text \<open>
  The failure paths that write nothing: every failure of the request and decide
  routes, and the cancel route when it finds no active transaction.
\<close>

lemma post_failure_no_write:
  "post_transactions s itemId borrowerId uuid now = (Inl e, s') \<Longrightarrow> s' = s"
  by (auto simp: post_transactions_def Let_def split: option.splits if_splits)

lemma put_failure_no_write:
  "put_transaction s id' status userId now = (Inl e, s') \<Longrightarrow> s' = s"
  by (auto simp: put_transaction_def Let_def split: option.splits if_splits)

lemma cancel_no_claim_no_write:
  assumes "post_transactions_cancel s itemId borrowerId = (Inl NotFound_active_transaction, s')"
  shows "s' = s"
proof (cases "find (\<lambda>t. t_itemId t = itemId \<and> t_borrowerId t = borrowerId \<and> is_active t)
                (transactions s)")
  case None
  from cancel_no_claim[OF None] assms show ?thesis by simp
next
  case (Some t)
  show ?thesis
  proof (cases "find (\<lambda>it. i_id it = itemId) (items s)")
    case None
    from cancel_no_item[OF Some None] assms show ?thesis by simp
  next
    case (Some item)
    from cancel_done[OF \<open>find _ (transactions s) = Some t\<close> Some] assms show ?thesis by simp
  qed
qed

section \<open>Invariant I1: one active claim per item\<close>

lemma claims_on_replace:
  assumes "t_itemId t' = t_itemId t" and "is_active t' \<Longrightarrow> is_active t"
  shows "length (filter (\<lambda>t. t_itemId t = i \<and> is_active t) (ys @ t' # zs))
         \<le> length (filter (\<lambda>t. t_itemId t = i \<and> is_active t) (ys @ t # zs))"
  using assms by (cases "is_active t'") simp_all

lemma claims_on_update_many:
  "length (filter (\<lambda>t. t_itemId t = i \<and> is_active t)
             (update_many (\<lambda>t. Q t \<and> is_active t) (\<lambda>t. t\<lparr>t_status := Cancelled\<rparr>) ts))
   \<le> length (filter (\<lambda>t. t_itemId t = i \<and> is_active t) ts)"
proof (induction ts)
  case Nil
  then show ?case by (simp add: update_many_def)
next
  case (Cons a ts)
  have "update_many (\<lambda>t. Q t \<and> is_active t) (\<lambda>t. t\<lparr>t_status := Cancelled\<rparr>) (a # ts)
        = (if Q a \<and> is_active a then a\<lparr>t_status := Cancelled\<rparr> else a)
          # update_many (\<lambda>t. Q t \<and> is_active t) (\<lambda>t. t\<lparr>t_status := Cancelled\<rparr>) ts"
    by (simp add: update_many_def)
  with Cons.IH show ?case
    by (cases "Q a \<and> is_active a") (simp_all add: not_active_cancelled)
qed

lemma claims_on_post:
  assumes "length (claims_on i s) \<le> 1"
  shows "length (claims_on i (snd (post_transactions s itemId borrowerId uuid now))) \<le> 1"
  using post_state[of s itemId borrowerId uuid now]
proof
  assume "snd (post_transactions s itemId borrowerId uuid now) = s"
  with assms show ?thesis by simp
next
  assume "find (\<lambda>t. t_itemId t = itemId \<and> is_active t) (transactions s) = None \<and>
    (\<exists>t. t_itemId t = itemId \<and> t_status t = Pending \<and>
         snd (post_transactions s itemId borrowerId uuid now)
           = s\<lparr>transactions := transactions s @ [t]\<rparr>)"
  then obtain t where
    n: "find (\<lambda>t. t_itemId t = itemId \<and> is_active t) (transactions s) = None" and
    t: "t_itemId t = itemId" "t_status t = Pending" and
    s': "snd (post_transactions s itemId borrowerId uuid now)
           = s\<lparr>transactions := transactions s @ [t]\<rparr>"
    by blast
  show ?thesis
  proof (cases "i = itemId")
    case True
    from n have "filter (\<lambda>t. t_itemId t = itemId \<and> is_active t) (transactions s) = []"
      by (simp add: find_None_iff_set filter_empty_conv)
    with True show ?thesis
      unfolding s' by (simp add: claims_on_def)
  next
    case False
    with assms t(1) show ?thesis
      unfolding s' by (simp add: claims_on_def)
  qed
qed

lemma claims_on_put:
  assumes "approves_only_active s (DecideRequest id' userId status now)"
  shows "length (claims_on i (snd (put_transaction s id' status userId now)))
         \<le> length (claims_on i s)"
  using put_state[of s id' status userId now]
proof
  assume "snd (put_transaction s id' status userId now) = s"
  then show ?thesis by simp
next
  assume "\<exists>t ys zs t'.
      transactions s = ys @ t # zs \<and> find (\<lambda>t. t_id t = id') (transactions s) = Some t \<and>
      t_itemId t' = t_itemId t \<and> t_id t' = t_id t \<and>
      ((status = ''approved'' \<and> t_status t' = Approved \<and>
        snd (put_transaction s id' status userId now) =
          s\<lparr>items := update_first (\<lambda>it. i_id it = t_itemId t)
                        (\<lambda>it. it\<lparr>i_status := Borrowed\<rparr>) (items s),
            transactions := ys @ t' # zs\<rparr>) \<or>
       (status = ''rejected'' \<and> t_status t' = Rejected \<and>
        snd (put_transaction s id' status userId now) = s\<lparr>transactions := ys @ t' # zs\<rparr>))"
  then obtain t ys zs t' where
    ts: "transactions s = ys @ t # zs" and
    f: "find (\<lambda>t. t_id t = id') (transactions s) = Some t" and
    same: "t_itemId t' = t_itemId t" and
    alt: "(status = ''approved'' \<and> t_status t' = Approved \<and>
           transactions (snd (put_transaction s id' status userId now)) = ys @ t' # zs) \<or>
          (status = ''rejected'' \<and> t_status t' = Rejected \<and>
           transactions (snd (put_transaction s id' status userId now)) = ys @ t' # zs)"
    by force
  from alt assms f have act: "is_active t' \<Longrightarrow> is_active t"
    by (auto simp: is_active_def)
  from alt have ts': "transactions (snd (put_transaction s id' status userId now)) = ys @ t' # zs"
    by blast
  from claims_on_replace[OF same act, of i ys zs] show ?thesis
    by (simp add: claims_on_def ts ts')
qed

lemma claims_on_cancel:
  "length (claims_on i (snd (post_transactions_cancel s itemId borrowerId)))
   \<le> length (claims_on i s)"
proof (cases "find (\<lambda>t. t_itemId t = itemId \<and> t_borrowerId t = borrowerId \<and> is_active t)
                (transactions s)")
  case None
  from cancel_no_claim[OF None] show ?thesis by simp
next
  case (Some t)
  from find_Some_split[OF Some] obtain ys zs where
    split: "transactions s = ys @ t # zs"
      "t_itemId t = itemId \<and> t_borrowerId t = borrowerId \<and> is_active t"
      "\<forall>y\<in>set ys. \<not> (t_itemId y = itemId \<and> t_borrowerId y = borrowerId \<and> is_active y)"
    by blast
  show ?thesis
  proof (cases "find (\<lambda>it. i_id it = itemId) (items s)")
    case None
    have "update_first (\<lambda>t. t_itemId t = itemId \<and> t_borrowerId t = borrowerId \<and> is_active t)
            (\<lambda>t. t\<lparr>t_status := Cancelled\<rparr>) (transactions s)
          = ys @ t\<lparr>t_status := Cancelled\<rparr> # zs"
      unfolding split(1) using split(2,3) by (intro update_first_split) simp_all
    with cancel_no_item[OF Some None]
    have ts': "transactions (snd (post_transactions_cancel s itemId borrowerId))
               = ys @ t\<lparr>t_status := Cancelled\<rparr> # zs"
      by simp
    have "length (filter (\<lambda>t. t_itemId t = i \<and> is_active t) (ys @ t\<lparr>t_status := Cancelled\<rparr> # zs))
          \<le> length (filter (\<lambda>t. t_itemId t = i \<and> is_active t) (ys @ t # zs))"
      by (rule claims_on_replace) (simp_all add: not_active_cancelled)
    then show ?thesis by (simp add: claims_on_def ts' split(1))
  next
    case (Some item)
    from cancel_done[OF \<open>find _ (transactions s) = Some t\<close> Some]
    have ts': "transactions (snd (post_transactions_cancel s itemId borrowerId))
               = update_many (\<lambda>t. t_itemId t = itemId \<and> is_active t)
                   (\<lambda>t. t\<lparr>t_status := Cancelled\<rparr>) (transactions s)"
      by simp
    show ?thesis
      unfolding claims_on_def ts' by (rule claims_on_update_many)
  qed
qed

lemma claims_on_step:
  assumes "length (claims_on i s) \<le> 1" and "approves_only_active s x"
  shows "length (claims_on i (step s x)) \<le> 1"
proof (cases x)
  case (RequestBorrow itemId borrowerId uuid now)
  with claims_on_post[OF assms(1), of itemId borrowerId uuid now] show ?thesis by simp
next
  case (DecideRequest id' userId status now)
  with assms(2) have "length (claims_on i (step s x)) \<le> length (claims_on i s)"
    using claims_on_put by simp
  with assms(1) show ?thesis by simp
next
  case (CancelOrReturn itemId borrowerId)
  then have "length (claims_on i (step s x)) \<le> length (claims_on i s)"
    by (simp add: claims_on_cancel)
  with assms(1) show ?thesis by simp
qed

text \<open>
  Claim C1, amended. For every item id: if at most one transaction for it is pending or
  approved, then at most one is after any sequence of \<open>RequestBorrow\<close>, \<open>DecideRequest\<close>
  and \<open>CancelOrReturn\<close> in which each approval reaches a transaction that is pending or
  approved at that moment (or no transaction at all).
\<close>

theorem single_active_claim_preserved:
  "length (claims_on itemId s) \<le> 1 \<Longrightarrow> all_steps approves_only_active s ops \<Longrightarrow>
   length (claims_on itemId (run s ops)) \<le> 1"
proof (induction ops arbitrary: s)
  case Nil
  then show ?case by (simp add: run_def)
next
  case (Cons x ops)
  from Cons.prems have g: "approves_only_active s x"
    and "all_steps approves_only_active (step s x) ops"
    by simp_all
  moreover from Cons.prems(1) g have "length (claims_on itemId (step s x)) \<le> 1"
    by (rule claims_on_step)
  ultimately have "length (claims_on itemId (step s x)) \<le> 1"
    and "all_steps approves_only_active (step s x) ops"
    by simp_all
  then have "length (claims_on itemId (run (step s x) ops)) \<le> 1" by (rule Cons.IH)
  then show ?case by (simp add: run_def)
qed

theorem single_active_claim_preserved_witness:
  "length (claims_on ''I1'' (shop Available [])) \<le> 1 \<and>
   all_steps approves_only_active (shop Available [])
     [RequestBorrow ''I1'' ''U2'' ''T1'' 5, DecideRequest ''T1'' ''U1'' ''approved'' 6,
      CancelOrReturn ''I1'' ''U2'', RequestBorrow ''I1'' ''U3'' ''T2'' 7] \<and>
   length (claims_on ''I1'' (run (shop Available [])
     [RequestBorrow ''I1'' ''U2'' ''T1'' 5, DecideRequest ''T1'' ''U1'' ''approved'' 6,
      CancelOrReturn ''I1'' ''U2'', RequestBorrow ''I1'' ''U3'' ''T2'' 7])) \<le> 1"
proof -
  have a: "length (claims_on ''I1'' (shop Available [])) \<le> 1"
    by (simp add: claims_on_def example_defs)
  have b: "all_steps approves_only_active (shop Available [])
     [RequestBorrow ''I1'' ''U2'' ''T1'' 5, DecideRequest ''T1'' ''U1'' ''approved'' 6,
      CancelOrReturn ''I1'' ''U2'', RequestBorrow ''I1'' ''U3'' ''T2'' 7]"
    by (simp add: route_defs example_defs)
  from a b single_active_claim_preserved[OF a b] show ?thesis by (intro conjI)
qed

text \<open>
  Without the condition on approvals the invariant is lost: Bob requests the drill and
  cancels, a third user requests it, and Ann then approves Bob's cancelled request. The
  decide route accepts the approval, and the drill has an approved and a pending
  transaction.
\<close>

theorem single_active_claim_counterexample:
  "length (claims_on ''I1'' (shop Available [])) \<le> 1 \<and>
   \<not> length (claims_on ''I1'' (run (shop Available [])
       [RequestBorrow ''I1'' ''U2'' ''T1'' 5, CancelOrReturn ''I1'' ''U2'',
        RequestBorrow ''I1'' ''U3'' ''T2'' 6, DecideRequest ''T1'' ''U1'' ''approved'' 7])) \<le> 1"
  by (simp add: claims_on_def route_defs example_defs)

section \<open>Invariant I2: borrowed if and only if approved\<close>

lemma approved_for_append_pending:
  "t_status t = Pending \<Longrightarrow> approved_for (ts @ [t]) j = approved_for ts j"
  by (simp add: approved_for_def)

lemma approved_for_replace_other:
  "t_itemId t' = t_itemId t \<Longrightarrow> j \<noteq> t_itemId t \<Longrightarrow>
   approved_for (ys @ t' # zs) j = approved_for (ys @ t # zs) j"
  by (auto simp: approved_for_def)

lemma approved_for_replace_unapproved:
  "t_status t' \<noteq> Approved \<Longrightarrow> t_status t \<noteq> Approved \<Longrightarrow>
   approved_for (ys @ t' # zs) j = approved_for (ys @ t # zs) j"
  by (auto simp: approved_for_def)

lemma approved_for_replace_approved:
  "t_status t' = Approved \<Longrightarrow> approved_for (ys @ t' # zs) (t_itemId t')"
  by (auto simp: approved_for_def)

lemma approved_for_update_many:
  "approved_for (update_many (\<lambda>t. t_itemId t = itemId \<and> is_active t)
                   (\<lambda>t. t\<lparr>t_status := Cancelled\<rparr>) ts) j
   = (j \<noteq> itemId \<and> approved_for ts j)"
proof (induction ts)
  case Nil
  then show ?case by (simp add: approved_for_def update_many_def)
next
  case (Cons a ts)
  have "approved_for (update_many (\<lambda>t. t_itemId t = itemId \<and> is_active t)
                   (\<lambda>t. t\<lparr>t_status := Cancelled\<rparr>) (a # ts)) j
        = ((t_itemId a = j \<and> t_status a = Approved \<and> j \<noteq> itemId) \<or>
           approved_for (update_many (\<lambda>t. t_itemId t = itemId \<and> is_active t)
                   (\<lambda>t. t\<lparr>t_status := Cancelled\<rparr>) ts) j)"
    by (cases "t_itemId a = itemId \<and> is_active a")
       (auto simp: approved_for_def update_many_def is_active_def)
  also have "\<dots> = (j \<noteq> itemId \<and> approved_for (a # ts) j)"
    unfolding Cons.IH by (auto simp: approved_for_def)
  finally show ?case .
qed

lemma borrowed_iff_approved_alt:
  "borrowed_iff_approved s =
     (\<forall>it\<in>set (items s). (i_status it = Borrowed) = approved_for (transactions s) (i_id it))"
  by (simp add: borrowed_iff_approved_def approved_for_def)

lemma coupled_post:
  assumes "borrowed_iff_approved s"
  shows "borrowed_iff_approved (snd (post_transactions s itemId borrowerId uuid now))"
  using post_state[of s itemId borrowerId uuid now]
proof
  assume "snd (post_transactions s itemId borrowerId uuid now) = s"
  with assms show ?thesis by simp
next
  assume "find (\<lambda>t. t_itemId t = itemId \<and> is_active t) (transactions s) = None \<and>
    (\<exists>t. t_itemId t = itemId \<and> t_status t = Pending \<and>
         snd (post_transactions s itemId borrowerId uuid now)
           = s\<lparr>transactions := transactions s @ [t]\<rparr>)"
  then obtain t where t: "t_status t = Pending" and
    s': "snd (post_transactions s itemId borrowerId uuid now)
           = s\<lparr>transactions := transactions s @ [t]\<rparr>"
    by blast
  from assms show ?thesis
    unfolding s' borrowed_iff_approved_alt
    by (simp add: approved_for_append_pending[OF t])
qed

lemma coupled_put:
  assumes u: "unique_item_ids s" and c: "borrowed_iff_approved s"
    and g: "rejects_only_unapproved s (DecideRequest id' userId status now)"
  shows "borrowed_iff_approved (snd (put_transaction s id' status userId now))"
  using put_state[of s id' status userId now]
proof
  assume "snd (put_transaction s id' status userId now) = s"
  with c show ?thesis by simp
next
  assume "\<exists>t ys zs t'.
      transactions s = ys @ t # zs \<and> find (\<lambda>t. t_id t = id') (transactions s) = Some t \<and>
      t_itemId t' = t_itemId t \<and> t_id t' = t_id t \<and>
      ((status = ''approved'' \<and> t_status t' = Approved \<and>
        snd (put_transaction s id' status userId now) =
          s\<lparr>items := update_first (\<lambda>it. i_id it = t_itemId t)
                        (\<lambda>it. it\<lparr>i_status := Borrowed\<rparr>) (items s),
            transactions := ys @ t' # zs\<rparr>) \<or>
       (status = ''rejected'' \<and> t_status t' = Rejected \<and>
        snd (put_transaction s id' status userId now) = s\<lparr>transactions := ys @ t' # zs\<rparr>))"
  then obtain t ys zs t' where
    ts: "transactions s = ys @ t # zs" and
    f: "find (\<lambda>t. t_id t = id') (transactions s) = Some t" and
    same: "t_itemId t' = t_itemId t" and
    alt: "(status = ''approved'' \<and> t_status t' = Approved \<and>
        snd (put_transaction s id' status userId now) =
          s\<lparr>items := update_first (\<lambda>it. i_id it = t_itemId t)
                        (\<lambda>it. it\<lparr>i_status := Borrowed\<rparr>) (items s),
            transactions := ys @ t' # zs\<rparr>) \<or>
       (status = ''rejected'' \<and> t_status t' = Rejected \<and>
        snd (put_transaction s id' status userId now) = s\<lparr>transactions := ys @ t' # zs\<rparr>)"
    by blast
  from alt show ?thesis
  proof
    assume a: "status = ''approved'' \<and> t_status t' = Approved \<and>
        snd (put_transaction s id' status userId now) =
          s\<lparr>items := update_first (\<lambda>it. i_id it = t_itemId t)
                        (\<lambda>it. it\<lparr>i_status := Borrowed\<rparr>) (items s),
            transactions := ys @ t' # zs\<rparr>"
    from u have its: "update_first (\<lambda>it. i_id it = t_itemId t)
                        (\<lambda>it. it\<lparr>i_status := Borrowed\<rparr>) (items s)
       = map (\<lambda>it. if i_id it = t_itemId t then it\<lparr>i_status := Borrowed\<rparr> else it) (items s)"
      unfolding unique_item_ids_def by (rule update_first_distinct_key)
    have "(i_status (if i_id it = t_itemId t then it\<lparr>i_status := Borrowed\<rparr> else it) = Borrowed)
          = approved_for (ys @ t' # zs)
              (i_id (if i_id it = t_itemId t then it\<lparr>i_status := Borrowed\<rparr> else it))"
      if "it \<in> set (items s)" for it
    proof (cases "i_id it = t_itemId t")
      case True
      with a same approved_for_replace_approved[of t' ys zs] show ?thesis by simp
    next
      case False
      from c that have "(i_status it = Borrowed) = approved_for (ys @ t # zs) (i_id it)"
        by (simp add: borrowed_iff_approved_alt ts)
      with False approved_for_replace_other[OF same, of "i_id it" ys zs] show ?thesis by simp
    qed
    moreover from a have a3: "snd (put_transaction s id' status userId now) =
          s\<lparr>items := update_first (\<lambda>it. i_id it = t_itemId t)
                        (\<lambda>it. it\<lparr>i_status := Borrowed\<rparr>) (items s),
            transactions := ys @ t' # zs\<rparr>"
      by blast
    have "items (snd (put_transaction s id' status userId now))
            = map (\<lambda>it. if i_id it = t_itemId t then it\<lparr>i_status := Borrowed\<rparr> else it) (items s)"
      and "transactions (snd (put_transaction s id' status userId now)) = ys @ t' # zs"
      unfolding a3 by (simp_all add: its)
    ultimately show ?thesis
      unfolding borrowed_iff_approved_alt by (simp only: ball_set_map) blast
  next
    assume a: "status = ''rejected'' \<and> t_status t' = Rejected \<and>
        snd (put_transaction s id' status userId now) = s\<lparr>transactions := ys @ t' # zs\<rparr>"
    with g f have "t_status t \<noteq> Approved" by simp
    moreover from a have "t_status t' \<noteq> Approved" by simp
    ultimately have "approved_for (ys @ t' # zs) j = approved_for (ys @ t # zs) j" for j
      by (intro approved_for_replace_unapproved)
    moreover from a
    have a3: "snd (put_transaction s id' status userId now) = s\<lparr>transactions := ys @ t' # zs\<rparr>"
      by blast
    have "items (snd (put_transaction s id' status userId now)) = items s"
      and "transactions (snd (put_transaction s id' status userId now)) = ys @ t' # zs"
      unfolding a3 by simp_all
    ultimately show ?thesis
      using c unfolding borrowed_iff_approved_alt by (simp add: ts)
  qed
qed

lemma coupled_cancel:
  assumes u: "unique_item_ids s" and c: "borrowed_iff_approved s"
  shows "borrowed_iff_approved (snd (post_transactions_cancel s itemId borrowerId))"
proof (cases "find (\<lambda>t. t_itemId t = itemId \<and> t_borrowerId t = borrowerId \<and> is_active t)
                (transactions s)")
  case None
  from cancel_no_claim[OF None] c show ?thesis by simp
next
  case (Some t)
  from find_Some_split[OF Some] obtain ys zs where
    split: "transactions s = ys @ t # zs"
      "t_itemId t = itemId \<and> t_borrowerId t = borrowerId \<and> is_active t"
      "\<forall>y\<in>set ys. \<not> (t_itemId y = itemId \<and> t_borrowerId y = borrowerId \<and> is_active y)"
    by blast
  show ?thesis
  proof (cases "find (\<lambda>it. i_id it = itemId) (items s)")
    case None
    have "update_first (\<lambda>t. t_itemId t = itemId \<and> t_borrowerId t = borrowerId \<and> is_active t)
            (\<lambda>t. t\<lparr>t_status := Cancelled\<rparr>) (transactions s)
          = ys @ t\<lparr>t_status := Cancelled\<rparr> # zs"
      unfolding split(1) using split(2,3) by (intro update_first_split) simp_all
    with cancel_no_item[OF Some None]
    have s': "snd (post_transactions_cancel s itemId borrowerId)
               = s\<lparr>transactions := ys @ t\<lparr>t_status := Cancelled\<rparr> # zs\<rparr>"
      by simp
    have "approved_for (ys @ t\<lparr>t_status := Cancelled\<rparr> # zs) (i_id it)
          = approved_for (ys @ t # zs) (i_id it)" if "it \<in> set (items s)" for it
    proof -
      from None that have "i_id it \<noteq> itemId" by (simp add: find_None_iff_set)
      with split(2) show ?thesis by (intro approved_for_replace_other) simp_all
    qed
    with c show ?thesis
      unfolding s' borrowed_iff_approved_alt by (simp add: split(1))
  next
    case (Some item)
    from cancel_done[OF \<open>find _ (transactions s) = Some t\<close> Some]
    have s': "snd (post_transactions_cancel s itemId borrowerId)
               = s\<lparr>items := update_first (\<lambda>it. i_id it = itemId)
                    (\<lambda>it. it\<lparr>i_status := Available\<rparr>) (items s),
                   transactions := update_many (\<lambda>t. t_itemId t = itemId \<and> is_active t)
                   (\<lambda>t. t\<lparr>t_status := Cancelled\<rparr>) (transactions s)\<rparr>"
      by simp
    from u have its: "update_first (\<lambda>it. i_id it = itemId)
                        (\<lambda>it. it\<lparr>i_status := Available\<rparr>) (items s)
       = map (\<lambda>it. if i_id it = itemId then it\<lparr>i_status := Available\<rparr> else it) (items s)"
      unfolding unique_item_ids_def by (rule update_first_distinct_key)
    have "(i_status (if i_id it = itemId then it\<lparr>i_status := Available\<rparr> else it) = Borrowed)
          = (i_id (if i_id it = itemId then it\<lparr>i_status := Available\<rparr> else it) \<noteq> itemId \<and>
             approved_for (transactions s)
               (i_id (if i_id it = itemId then it\<lparr>i_status := Available\<rparr> else it)))"
      if "it \<in> set (items s)" for it
    proof (cases "i_id it = itemId")
      case True
      then show ?thesis by simp
    next
      case False
      with c that show ?thesis by (simp add: borrowed_iff_approved_alt)
    qed
    moreover from s' its
    have "items (snd (post_transactions_cancel s itemId borrowerId))
            = map (\<lambda>it. if i_id it = itemId then it\<lparr>i_status := Available\<rparr> else it) (items s)"
      and "transactions (snd (post_transactions_cancel s itemId borrowerId))
            = update_many (\<lambda>t. t_itemId t = itemId \<and> is_active t)
                   (\<lambda>t. t\<lparr>t_status := Cancelled\<rparr>) (transactions s)"
      by simp_all
    ultimately show ?thesis
      unfolding borrowed_iff_approved_alt
      by (simp only: ball_set_map approved_for_update_many) blast
  qed
qed

lemma coupled_step:
  assumes "unique_item_ids s" and "borrowed_iff_approved s" and "rejects_only_unapproved s x"
  shows "borrowed_iff_approved (step s x)"
proof (cases x)
  case (RequestBorrow x11 x12 x13 x14)
  with assms(2) show ?thesis by (simp add: coupled_post)
next
  case (DecideRequest x21 x22 x23 x24)
  with assms show ?thesis using coupled_put by simp
next
  case (CancelOrReturn x31 x32)
  with assms(1,2) show ?thesis by (simp add: coupled_cancel)
qed

text \<open>
  Claim C2, amended. In a store with unique item ids where an item is borrowed exactly
  when a transaction for it is approved, the same holds after any sequence of
  Coordinator operations in which no rejection reaches a transaction that is approved
  at that moment.
\<close>

theorem borrowed_iff_approved_preserved:
  "unique_item_ids s \<Longrightarrow> borrowed_iff_approved s \<Longrightarrow>
   all_steps rejects_only_unapproved s ops \<Longrightarrow> borrowed_iff_approved (run s ops)"
proof (induction ops arbitrary: s)
  case Nil
  then show ?case by (simp add: run_def)
next
  case (Cons x ops)
  from Cons.prems have "borrowed_iff_approved (step s x)"
    by (simp add: coupled_step)
  moreover from Cons.prems(1) have "unique_item_ids (step s x)"
    by (simp add: unique_item_ids_def item_ids_step)
  moreover from Cons.prems(3) have "all_steps rejects_only_unapproved (step s x) ops"
    by simp
  ultimately have "borrowed_iff_approved (run (step s x) ops)" by (intro Cons.IH)
  then show ?case by (simp add: run_def)
qed

theorem borrowed_iff_approved_preserved_witness:
  "unique_item_ids (shop Available []) \<and> borrowed_iff_approved (shop Available []) \<and>
   all_steps rejects_only_unapproved (shop Available [])
     [RequestBorrow ''I1'' ''U2'' ''T1'' 5, DecideRequest ''T1'' ''U1'' ''approved'' 6,
      CancelOrReturn ''I1'' ''U2'', RequestBorrow ''I1'' ''U3'' ''T2'' 7,
      DecideRequest ''T2'' ''U1'' ''rejected'' 8] \<and>
   borrowed_iff_approved (run (shop Available [])
     [RequestBorrow ''I1'' ''U2'' ''T1'' 5, DecideRequest ''T1'' ''U1'' ''approved'' 6,
      CancelOrReturn ''I1'' ''U2'', RequestBorrow ''I1'' ''U3'' ''T2'' 7,
      DecideRequest ''T2'' ''U1'' ''rejected'' 8])"
proof -
  have a: "unique_item_ids (shop Available [])"
    by (simp add: unique_item_ids_def example_defs)
  have b: "borrowed_iff_approved (shop Available [])"
    by (simp add: borrowed_iff_approved_def example_defs)
  have c: "all_steps rejects_only_unapproved (shop Available [])
     [RequestBorrow ''I1'' ''U2'' ''T1'' 5, DecideRequest ''T1'' ''U1'' ''approved'' 6,
      CancelOrReturn ''I1'' ''U2'', RequestBorrow ''I1'' ''U3'' ''T2'' 7,
      DecideRequest ''T2'' ''U1'' ''rejected'' 8]"
    by (simp add: route_defs example_defs)
  from a b c borrowed_iff_approved_preserved[OF a b c] show ?thesis by (intro conjI)
qed

text \<open>
  Without the condition on rejections the coupling is lost: Ann approves Bob's request
  and then rejects the same transaction. The rejection leaves the drill borrowed although no transaction for it is
  approved any more.
\<close>

theorem borrowed_iff_approved_counterexample:
  "unique_item_ids (shop Available []) \<and> borrowed_iff_approved (shop Available []) \<and>
   \<not> borrowed_iff_approved (run (shop Available [])
       [RequestBorrow ''I1'' ''U2'' ''T1'' 5, DecideRequest ''T1'' ''U1'' ''approved'' 6,
        DecideRequest ''T1'' ''U1'' ''rejected'' 7])"
  by (simp add: unique_item_ids_def borrowed_iff_approved_def route_defs example_defs)

section \<open>Deciding a transaction\<close>

text \<open>
  Claim C3, amended. \<open>DecideRequest\<close> does not read the current status: whenever the
  transaction exists, the caller is its lender and the decision is \<^verbatim>\<open>approved\<close> or
  \<^verbatim>\<open>rejected\<close>, the call succeeds and the transaction carries the decided status,
  whatever its status was. The other two operations never touch a transaction that is
  rejected or cancelled, so \<open>DecideRequest\<close> is the only way out of a terminal status.
\<close>

theorem decide_ignores_current_status:
  "(find (\<lambda>t. t_id t = id') (transactions s) = Some t \<and> t_lenderId t = userId \<and>
    (status = ''approved'' \<or> status = ''rejected'') \<longrightarrow>
      (\<exists>t'. fst (put_transaction s id' status userId now) = Inr t' \<and>
            find (\<lambda>t. t_id t = id')
              (transactions (snd (put_transaction s id' status userId now))) = Some t' \<and>
            t_status t' = (if status = ''approved'' then Approved else Rejected))) \<and>
   (\<forall>k<length (transactions s).
      t_status (transactions s ! k) \<in> {Rejected, Cancelled} \<longrightarrow>
        transactions (snd (post_transactions s itemId borrowerId uuid now)) ! k
          = transactions s ! k \<and>
        transactions (snd (post_transactions_cancel s itemId borrowerId)) ! k
          = transactions s ! k)"
proof (intro conjI impI allI)
  assume a: "find (\<lambda>t. t_id t = id') (transactions s) = Some t \<and> t_lenderId t = userId \<and>
    (status = ''approved'' \<or> status = ''rejected'')"
  then have f: "find (\<lambda>t. t_id t = id') (transactions s) = Some t"
    and l: "t_lenderId t = userId" by simp_all
  from find_Some_split[OF f] obtain ys zs where
    split: "transactions s = ys @ t # zs" "t_id t = id'" "\<forall>y\<in>set ys. t_id y \<noteq> id'"
    by blast
  have upd: "update_first (\<lambda>t. t_id t = id') g (transactions s) = ys @ g t # zs" for g
    unfolding split(1) using split(2,3) by (intro update_first_split) simp_all
  have fnd: "find (\<lambda>t. t_id t = id') (ys @ t' # zs) = Some t'" if "t_id t' = id'" for t'
    using split(3) that by (intro find_split) simp_all
  from a have "status = ''approved'' \<or> status = ''rejected''" by simp
  then show "\<exists>t'. fst (put_transaction s id' status userId now) = Inr t' \<and>
            find (\<lambda>t. t_id t = id')
              (transactions (snd (put_transaction s id' status userId now))) = Some t' \<and>
            t_status t' = (if status = ''approved'' then Approved else Rejected)"
  proof
    assume st: "status = ''approved''"
    then have "decision_of status = Some Approved" by (simp add: decision_of_def)
    from put_approved[OF f l this, of now] st split(2) show ?thesis
      by (simp add: upd fnd)
  next
    assume st: "status = ''rejected''"
    then have "decision_of status = Some Rejected" by (simp add: decision_of_def)
    from put_rejected[OF f l this, of now] st split(2) show ?thesis
      by (simp add: upd fnd)
  qed
next
  fix k
  assume k: "k < length (transactions s)"
    and tm: "t_status (transactions s ! k) \<in> {Rejected, Cancelled}"
  from post_state[of s itemId borrowerId uuid now] k
  show "transactions (snd (post_transactions s itemId borrowerId uuid now)) ! k
          = transactions s ! k"
    by (elim disjE conjE exE) (simp_all add: nth_append)
next
  fix k
  assume k: "k < length (transactions s)"
    and tm: "t_status (transactions s ! k) \<in> {Rejected, Cancelled}"
  then have na: "\<not> is_active (transactions s ! k)" by (auto simp: is_active_def)
  show "transactions (snd (post_transactions_cancel s itemId borrowerId)) ! k
          = transactions s ! k"
  proof (cases "find (\<lambda>t. t_itemId t = itemId \<and> t_borrowerId t = borrowerId \<and> is_active t)
                (transactions s)")
    case None
    from cancel_no_claim[OF None] show ?thesis by simp
  next
    case (Some t)
    show ?thesis
    proof (cases "find (\<lambda>it. i_id it = itemId) (items s)")
      case None
      from cancel_no_item[OF Some None] k na show ?thesis
        by (simp add: nth_update_first_other)
    next
      case (Some item)
      from cancel_done[OF \<open>find _ (transactions s) = Some t\<close> Some] k na show ?thesis
        by (simp add: nth_update_many_other)
    qed
  qed
qed

theorem decide_ignores_current_status_witness:
  "(find (\<lambda>t. t_id t = ''T1'') (transactions (shop Available [request ''T1'' ''U2'' Cancelled]))
      = Some (request ''T1'' ''U2'' Cancelled) \<and>
    t_lenderId (request ''T1'' ''U2'' Cancelled) = ''U1'' \<and>
    (''approved'' = ''approved'' \<or> ''approved'' = ''rejected'')) \<and>
   (\<exists>t'. fst (put_transaction (shop Available [request ''T1'' ''U2'' Cancelled])
                ''T1'' ''approved'' ''U1'' 7) = Inr t' \<and>
         find (\<lambda>t. t_id t = ''T1'')
           (transactions (snd (put_transaction (shop Available [request ''T1'' ''U2'' Cancelled])
                                 ''T1'' ''approved'' ''U1'' 7))) = Some t' \<and>
         t_status t' = Approved) \<and>
   (0 < length (transactions (shop Available [request ''T1'' ''U2'' Cancelled])) \<and>
    t_status (transactions (shop Available [request ''T1'' ''U2'' Cancelled]) ! 0)
      \<in> {Rejected, Cancelled}) \<and>
   transactions (snd (post_transactions (shop Available [request ''T1'' ''U2'' Cancelled])
                        ''I1'' ''U2'' ''T2'' 7)) ! 0
     = transactions (shop Available [request ''T1'' ''U2'' Cancelled]) ! 0 \<and>
   transactions (snd (post_transactions_cancel (shop Available [request ''T1'' ''U2'' Cancelled])
                        ''I1'' ''U2'')) ! 0
     = transactions (shop Available [request ''T1'' ''U2'' Cancelled]) ! 0"
proof -
  have a: "find (\<lambda>t. t_id t = ''T1'') (transactions (shop Available [request ''T1'' ''U2'' Cancelled]))
      = Some (request ''T1'' ''U2'' Cancelled) \<and>
    t_lenderId (request ''T1'' ''U2'' Cancelled) = ''U1'' \<and>
    (''approved'' = ''approved'' \<or> ''approved'' = ''rejected'')"
    by (simp add: example_defs)
  have b: "0 < length (transactions (shop Available [request ''T1'' ''U2'' Cancelled])) \<and>
    t_status (transactions (shop Available [request ''T1'' ''U2'' Cancelled]) ! 0)
      \<in> {Rejected, Cancelled}"
    by (simp add: example_defs)
  note T = decide_ignores_current_status
      [where id' = "''T1''" and s = "shop Available [request ''T1'' ''U2'' Cancelled]"
         and t = "request ''T1'' ''U2'' Cancelled" and userId = "''U1''"
         and status = "''approved''" and now = 7 and itemId = "''I1''"
         and borrowerId = "''U2''" and uuid = "''T2''"]
  from T a
  have p1: "\<exists>t'. fst (put_transaction (shop Available [request ''T1'' ''U2'' Cancelled])
                ''T1'' ''approved'' ''U1'' 7) = Inr t' \<and>
         find (\<lambda>t. t_id t = ''T1'')
           (transactions (snd (put_transaction (shop Available [request ''T1'' ''U2'' Cancelled])
                                 ''T1'' ''approved'' ''U1'' 7))) = Some t' \<and>
         t_status t' = Approved"
    by simp
  from T b
  have p2: "transactions (snd (post_transactions (shop Available [request ''T1'' ''U2'' Cancelled])
                        ''I1'' ''U2'' ''T2'' 7)) ! 0
     = transactions (shop Available [request ''T1'' ''U2'' Cancelled]) ! 0 \<and>
   transactions (snd (post_transactions_cancel (shop Available [request ''T1'' ''U2'' Cancelled])
                        ''I1'' ''U2'')) ! 0
     = transactions (shop Available [request ''T1'' ''U2'' Cancelled]) ! 0"
    by blast
  from a p1 b p2 show ?thesis by blast
qed

text \<open>
  A decision on a transaction that is no longer pending is not refused: rejecting an
  approved transaction succeeds, and so does approving a cancelled one, which then
  leaves its terminal status.
\<close>

theorem decide_on_decided_counterexample:
  "put_transaction (shop Borrowed [request ''T1'' ''U2'' Approved]) ''T1'' ''rejected'' ''U1'' 7
     = (Inr (request ''T1'' ''U2'' Rejected), shop Borrowed [request ''T1'' ''U2'' Rejected]) \<and>
   put_transaction (shop Available [request ''T1'' ''U2'' Cancelled]) ''T1'' ''approved'' ''U1'' 7
     = (Inr ((request ''T1'' ''U2'' Approved)\<lparr>t_borrowDate := Some 7\<rparr>),
        shop Borrowed [(request ''T1'' ''U2'' Approved)\<lparr>t_borrowDate := Some 7\<rparr>])"
  by (simp add: route_defs example_defs)

text \<open>
  Claim C6. A \<open>DecideRequest\<close> that succeeds with the decision \<^verbatim>\<open>rejected\<close> leaves
  the item collection as it was; and after any operation that is not an approval, an
  item that is borrowed is the item that was there before, unchanged: only an approval
  sets an item's status to borrowed.
\<close>

theorem only_approval_borrows:
  "(put_transaction s id' ''rejected'' userId now = (Inr t, s') \<longrightarrow> items s' = items s) \<and>
   (\<not> is_approval x \<longrightarrow>
      length (items (step s x)) = length (items s) \<and>
      (\<forall>k<length (items s).
         i_status (items (step s x) ! k) = Borrowed \<longrightarrow>
           items (step s x) ! k = items s ! k))"
proof (intro conjI impI)
  assume "put_transaction s id' ''rejected'' userId now = (Inr t, s')"
  then have "s' = snd (put_transaction s id' ''rejected'' userId now)" by simp
  with put_state[of s id' "''rejected''" userId now] show "items s' = items s"
    by (elim disjE conjE exE) simp_all
next
  assume "\<not> is_approval x"
  then show "length (items (step s x)) = length (items s)"
    using arg_cong[OF item_ids_step[of s x], of length] by simp
next
  assume na: "\<not> is_approval x"
  show "\<forall>k<length (items s).
         i_status (items (step s x) ! k) = Borrowed \<longrightarrow> items (step s x) ! k = items s ! k"
  proof (cases x)
    case (RequestBorrow itemId borrowerId uuid now)
    from post_state[of s itemId borrowerId uuid now]
    have "items (snd (post_transactions s itemId borrowerId uuid now)) = items s"
      by (elim disjE conjE exE) simp_all
    with RequestBorrow show ?thesis by simp
  next
    case (DecideRequest id' userId status now)
    with na have "status \<noteq> ''approved''" by simp
    with put_state[of s id' status userId now]
    have "items (snd (put_transaction s id' status userId now)) = items s"
      by (elim disjE conjE exE) simp_all
    with DecideRequest show ?thesis by simp
  next
    case (CancelOrReturn itemId borrowerId)
    have "items (snd (post_transactions_cancel s itemId borrowerId)) = items s \<or>
          items (snd (post_transactions_cancel s itemId borrowerId))
            = update_first (\<lambda>it. i_id it = itemId) (\<lambda>it. it\<lparr>i_status := Available\<rparr>) (items s)"
    proof (cases "find (\<lambda>t. t_itemId t = itemId \<and> t_borrowerId t = borrowerId \<and> is_active t)
                (transactions s)")
      case None
      from cancel_no_claim[OF None] show ?thesis by simp
    next
      case (Some t)
      show ?thesis
      proof (cases "find (\<lambda>it. i_id it = itemId) (items s)")
        case None
        from cancel_no_item[OF Some None] show ?thesis by simp
      next
        case (Some item)
        from cancel_done[OF \<open>find _ (transactions s) = Some t\<close> Some] show ?thesis by simp
      qed
    qed
    then have "\<forall>k<length (items s).
         i_status (items (snd (post_transactions_cancel s itemId borrowerId)) ! k) = Borrowed \<longrightarrow>
           items (snd (post_transactions_cancel s itemId borrowerId)) ! k = items s ! k"
    proof
      assume "items (snd (post_transactions_cancel s itemId borrowerId)) = items s"
      then show ?thesis by simp
    next
      assume e: "items (snd (post_transactions_cancel s itemId borrowerId))
            = update_first (\<lambda>it. i_id it = itemId) (\<lambda>it. it\<lparr>i_status := Available\<rparr>) (items s)"
      show ?thesis
      proof (intro allI impI)
        fix k assume k: "k < length (items s)"
          and b: "i_status (items (snd (post_transactions_cancel s itemId borrowerId)) ! k) = Borrowed"
        from nth_update_first[OF k, of "\<lambda>it. i_id it = itemId" "\<lambda>it. it\<lparr>i_status := Available\<rparr>"] b
        show "items (snd (post_transactions_cancel s itemId borrowerId)) ! k = items s ! k"
          unfolding e by auto
      qed
    qed
    with CancelOrReturn show ?thesis by simp
  qed
qed

theorem only_approval_borrows_witness:
  "put_transaction (shop Available [request ''T1'' ''U2'' Pending]) ''T1'' ''rejected'' ''U1'' 7
     = (Inr (request ''T1'' ''U2'' Rejected), shop Available [request ''T1'' ''U2'' Rejected]) \<and>
   items (shop Available [request ''T1'' ''U2'' Rejected])
     = items (shop Available [request ''T1'' ''U2'' Pending]) \<and>
   \<not> is_approval (DecideRequest ''T1'' ''U1'' ''rejected'' 7) \<and>
   0 < length (items (shop Borrowed [request ''T1'' ''U2'' Approved])) \<and>
   i_status (items (step (shop Borrowed [request ''T1'' ''U2'' Approved])
                      (DecideRequest ''T1'' ''U1'' ''rejected'' 7)) ! 0) = Borrowed \<and>
   items (step (shop Borrowed [request ''T1'' ''U2'' Approved])
            (DecideRequest ''T1'' ''U1'' ''rejected'' 7)) ! 0
     = items (shop Borrowed [request ''T1'' ''U2'' Approved]) ! 0"
proof -
  have a: "put_transaction (shop Available [request ''T1'' ''U2'' Pending])
             ''T1'' ''rejected'' ''U1'' 7
     = (Inr (request ''T1'' ''U2'' Rejected), shop Available [request ''T1'' ''U2'' Rejected])"
    by (simp add: route_defs example_defs)
  have b: "\<not> is_approval (DecideRequest ''T1'' ''U1'' ''rejected'' 7)"
    by simp
  have c: "0 < length (items (shop Borrowed [request ''T1'' ''U2'' Approved]))"
    by (simp add: example_defs)
  have d: "i_status (items (step (shop Borrowed [request ''T1'' ''U2'' Approved])
                      (DecideRequest ''T1'' ''U1'' ''rejected'' 7)) ! 0) = Borrowed"
    by (simp add: route_defs example_defs)
  from a b c d
    only_approval_borrows
      [where s = "shop Available [request ''T1'' ''U2'' Pending]" and id' = "''T1''"
         and userId = "''U1''" and now = 7 and t = "request ''T1'' ''U2'' Rejected"
         and s' = "shop Available [request ''T1'' ''U2'' Rejected]"]
    only_approval_borrows
      [where x = "DecideRequest ''T1'' ''U1'' ''rejected'' 7"
         and s = "shop Borrowed [request ''T1'' ''U2'' Approved]"]
  show ?thesis by blast
qed

section \<open>Failure and partial writes\<close>

text \<open>
  Claim C4 (a failure result means that nothing was written) does not hold of the cancel
  route: it saves the cancelled transaction (line 517) before it looks the item up
  (line 521), and answers 404 (line 534) when the item is missing. On a store whose
  transaction names a missing item the call fails and the transaction is cancelled all
  the same.
\<close>

theorem cancel_writes_before_item_check:
  "post_transactions_cancel (orphaned [request ''T1'' ''U2'' Pending]) ''I1'' ''U2''
     = (Inl NotFound_item, orphaned [request ''T1'' ''U2'' Cancelled]) \<and>
   orphaned [request ''T1'' ''U2'' Cancelled] \<noteq> orphaned [request ''T1'' ''U2'' Pending]"
  by (simp add: route_defs example_defs orphaned_def)

section \<open>Requesting an item\<close>

text \<open>
  Claim C5. \<open>RequestBorrow\<close> checks in order, the first failure winning: an unknown item
  id gives \<open>NotFound(item)\<close>; else a borrower who owns the item gives
  \<open>Conflict(self_borrow)\<close>; else an active transaction for the item gives
  \<open>Conflict(active_claim_exists)\<close>. Each failure leaves the store as it was.
\<close>

theorem request_borrow_precondition_order:
  "(itemId \<notin> i_id ` set (items s) \<longrightarrow>
      post_transactions s itemId borrowerId uuid now = (Inl NotFound_item, s)) \<and>
   (find (\<lambda>it. i_id it = itemId) (items s) = Some item \<and> i_ownerId item = borrowerId \<longrightarrow>
      post_transactions s itemId borrowerId uuid now = (Inl Conflict_self_borrow, s)) \<and>
   (find (\<lambda>it. i_id it = itemId) (items s) = Some item \<and> i_ownerId item \<noteq> borrowerId \<and>
    (\<exists>t\<in>set (transactions s). t_itemId t = itemId \<and> t_status t \<in> {Pending, Approved}) \<longrightarrow>
      post_transactions s itemId borrowerId uuid now = (Inl Conflict_active_claim_exists, s))"
proof (intro conjI impI)
  assume "itemId \<notin> i_id ` set (items s)"
  then have "find (\<lambda>it. i_id it = itemId) (items s) = None"
    by (auto simp: find_None_iff_set)
  then show "post_transactions s itemId borrowerId uuid now = (Inl NotFound_item, s)"
    by (simp add: post_transactions_def)
next
  assume "find (\<lambda>it. i_id it = itemId) (items s) = Some item \<and> i_ownerId item = borrowerId"
  then show "post_transactions s itemId borrowerId uuid now = (Inl Conflict_self_borrow, s)"
    by (simp add: post_transactions_def)
next
  assume a: "find (\<lambda>it. i_id it = itemId) (items s) = Some item \<and> i_ownerId item \<noteq> borrowerId \<and>
    (\<exists>t\<in>set (transactions s). t_itemId t = itemId \<and> t_status t \<in> {Pending, Approved})"
  then have "find (\<lambda>t. t_itemId t = itemId \<and> is_active t) (transactions s) \<noteq> None"
    by (auto simp: find_None_iff_set is_active_def)
  with a show "post_transactions s itemId borrowerId uuid now = (Inl Conflict_active_claim_exists, s)"
    by (auto simp: post_transactions_def)
qed

theorem request_borrow_precondition_order_witness:
  "(''I9'' \<notin> i_id ` set (items (shop Available [])) \<and>
    post_transactions (shop Available []) ''I9'' ''U2'' ''T1'' 5
      = (Inl NotFound_item, shop Available [])) \<and>
   (find (\<lambda>it. i_id it = ''I1'') (items (shop Available [])) = Some drill \<and>
    i_ownerId drill = ''U1'' \<and>
    post_transactions (shop Available []) ''I1'' ''U1'' ''T1'' 5
      = (Inl Conflict_self_borrow, shop Available [])) \<and>
   (find (\<lambda>it. i_id it = ''I1'') (items (shop Available [request ''T1'' ''U2'' Pending]))
      = Some drill \<and>
    i_ownerId drill \<noteq> ''U3'' \<and>
    (\<exists>t\<in>set (transactions (shop Available [request ''T1'' ''U2'' Pending])).
       t_itemId t = ''I1'' \<and> t_status t \<in> {Pending, Approved}) \<and>
    post_transactions (shop Available [request ''T1'' ''U2'' Pending]) ''I1'' ''U3'' ''T2'' 6
      = (Inl Conflict_active_claim_exists, shop Available [request ''T1'' ''U2'' Pending]))"
proof -
  have a: "''I9'' \<notin> i_id ` set (items (shop Available []))"
    by (simp add: example_defs)
  have b: "find (\<lambda>it. i_id it = ''I1'') (items (shop Available [])) = Some drill \<and>
           i_ownerId drill = ''U1''"
    by (simp add: example_defs)
  have c: "find (\<lambda>it. i_id it = ''I1'') (items (shop Available [request ''T1'' ''U2'' Pending]))
             = Some drill \<and>
           i_ownerId drill \<noteq> ''U3'' \<and>
           (\<exists>t\<in>set (transactions (shop Available [request ''T1'' ''U2'' Pending])).
              t_itemId t = ''I1'' \<and> t_status t \<in> {Pending, Approved})"
    by (simp add: example_defs)
  from a b c
    request_borrow_precondition_order
      [of "''I9''" "shop Available []" "''U2''" "''T1''" 5 drill]
    request_borrow_precondition_order
      [of "''I1''" "shop Available []" "''U1''" "''T1''" 5 drill]
    request_borrow_precondition_order
      [of "''I1''" "shop Available [request ''T1'' ''U2'' Pending]" "''U3''" "''T2''" 6 drill]
  show ?thesis by blast
qed

text \<open>
  Claim C8. A successful \<open>RequestBorrow\<close> appends exactly one transaction, with status
  pending, the item's owner as lender and the start date \<open>now\<close>; the items (so the
  status of the requested item, available if it was) and the users are unchanged.
\<close>

theorem request_borrow_creates_pending:
  assumes "post_transactions s itemId borrowerId uuid now = (Inr t, s')"
  shows "\<exists>item. find (\<lambda>it. i_id it = itemId) (items s) = Some item \<and>
           t = \<lparr>t_id = uuid, t_itemId = itemId, t_lenderId = i_ownerId item,
                t_borrowerId = borrowerId, t_status = Pending, t_startDate = now,
                t_endDate = None, t_borrowDate = None\<rparr> \<and>
           s' = s\<lparr>transactions := transactions s @ [t]\<rparr> \<and>
           items s' = items s \<and> users s' = users s"
  using assms
  by (auto simp: post_transactions_def Let_def split: option.splits if_splits)

theorem request_borrow_creates_pending_witness:
  "post_transactions (shop Available []) ''I1'' ''U2'' ''T1'' 5
     = (Inr (request ''T1'' ''U2'' Pending), shop Available [request ''T1'' ''U2'' Pending]) \<and>
   (\<exists>item. find (\<lambda>it. i_id it = ''I1'') (items (shop Available [])) = Some item \<and>
      request ''T1'' ''U2'' Pending =
        \<lparr>t_id = ''T1'', t_itemId = ''I1'', t_lenderId = i_ownerId item,
         t_borrowerId = ''U2'', t_status = Pending, t_startDate = 5,
         t_endDate = None, t_borrowDate = None\<rparr> \<and>
      shop Available [request ''T1'' ''U2'' Pending] =
        (shop Available [])\<lparr>transactions :=
           transactions (shop Available []) @ [request ''T1'' ''U2'' Pending]\<rparr> \<and>
      items (shop Available [request ''T1'' ''U2'' Pending]) = items (shop Available []) \<and>
      users (shop Available [request ''T1'' ''U2'' Pending]) = users (shop Available []))"
proof -
  have h: "post_transactions (shop Available []) ''I1'' ''U2'' ''T1'' 5
     = (Inr (request ''T1'' ''U2'' Pending), shop Available [request ''T1'' ''U2'' Pending])"
    by (simp add: route_defs example_defs)
  from h request_borrow_creates_pending[OF h] show ?thesis by (rule conjI)
qed

text \<open>
  Claim C10, amended. \<open>RequestBorrow\<close> never reads the user collection: when the item
  exists, the borrower is not its owner, no transaction for it is active, and the new
  document passes the schema's \<^verbatim>\<open>required\<close> validators (the new id, the item id, the
  owner's id and the borrower's id are non-empty strings), a pending transaction for the
  borrower is created, whoever the users are; in the instance below no user has the
  borrower's id.
\<close>

theorem request_borrow_ignores_users:
  assumes "find (\<lambda>it. i_id it = itemId) (items s) = Some item"
    and "i_ownerId item \<noteq> borrowerId"
    and "\<forall>t\<in>set (transactions s). t_itemId t = itemId \<longrightarrow> t_status t \<notin> {Pending, Approved}"
    and "uuid \<noteq> ''''" and "itemId \<noteq> ''''" and "i_ownerId item \<noteq> ''''"
    and "borrowerId \<noteq> ''''"
  shows "\<exists>t. post_transactions s itemId borrowerId uuid now =
               (Inr t, s\<lparr>transactions := transactions s @ [t]\<rparr>) \<and>
             t_status t = Pending \<and> t_borrowerId t = borrowerId \<and> t_itemId t = itemId"
proof -
  from assms(3) have "find (\<lambda>t. t_itemId t = itemId \<and> is_active t) (transactions s) = None"
    by (auto simp: find_None_iff_set is_active_def)
  with assms(1,2,4-7) show ?thesis
    by (simp add: post_transactions_def Let_def validate_transaction_def required_def)
qed

theorem request_borrow_ignores_users_witness:
  "find (\<lambda>it. i_id it = ''I1'') (items (shop Available [request ''T0'' ''U2'' Cancelled]))
     = Some drill \<and>
   i_ownerId drill \<noteq> ''U9'' \<and>
   \<not> (\<exists>t\<in>set (transactions (shop Available [request ''T0'' ''U2'' Cancelled])).
        t_itemId t = ''I1'' \<and> t_status t \<in> {Pending, Approved}) \<and>
   ''T1'' \<noteq> '''' \<and> ''I1'' \<noteq> '''' \<and> i_ownerId drill \<noteq> '''' \<and> ''U9'' \<noteq> '''' \<and>
   ''U9'' \<notin> u_id ` set (users (shop Available [request ''T0'' ''U2'' Cancelled])) \<and>
   (\<exists>t. post_transactions (shop Available [request ''T0'' ''U2'' Cancelled])
            ''I1'' ''U9'' ''T1'' 9 =
          (Inr t, (shop Available [request ''T0'' ''U2'' Cancelled])
                    \<lparr>transactions :=
                       transactions (shop Available [request ''T0'' ''U2'' Cancelled]) @ [t]\<rparr>) \<and>
        t_status t = Pending \<and> t_borrowerId t = ''U9'' \<and> t_itemId t = ''I1'')"
proof -
  have a: "find (\<lambda>it. i_id it = ''I1'') (items (shop Available [request ''T0'' ''U2'' Cancelled]))
     = Some drill"
    by (simp add: example_defs)
  have b: "i_ownerId drill \<noteq> ''U9''"
    by (simp add: example_defs)
  have c: "\<forall>t\<in>set (transactions (shop Available [request ''T0'' ''U2'' Cancelled])).
      t_itemId t = ''I1'' \<longrightarrow> t_status t \<notin> {Pending, Approved}"
    by (simp add: example_defs)
  have d: "''U9'' \<notin> u_id ` set (users (shop Available [request ''T0'' ''U2'' Cancelled]))"
    by (simp add: example_defs)
  have e: "''T1'' \<noteq> ''''" and f: "''I1'' \<noteq> ''''" and g: "i_ownerId drill \<noteq> ''''"
    and h: "''U9'' \<noteq> ''''"
    by (simp_all add: example_defs)
  from c have c': "\<not> (\<exists>t\<in>set (transactions (shop Available [request ''T0'' ''U2'' Cancelled])).
        t_itemId t = ''I1'' \<and> t_status t \<in> {Pending, Approved})"
    by blast
  from a b c' d e f g h request_borrow_ignores_users[OF a b c e f g h, of 9] show ?thesis
    by (intro conjI)
qed

text \<open>
  Without the condition on the validators the creation can fail: with an empty borrower
  id the item exists, its owner differs from the borrower and no transaction is active,
  but \<^verbatim>\<open>transaction.save()\<close> refuses the document, the handler answers 500 and nothing
  is stored.
\<close>

theorem request_borrow_empty_borrower_counterexample:
  "find (\<lambda>it. i_id it = ''I1'') (items (shop Available [])) = Some drill \<and>
   i_ownerId drill \<noteq> '''' \<and>
   \<not> (\<exists>t\<in>set (transactions (shop Available [])).
        t_itemId t = ''I1'' \<and> t_status t \<in> {Pending, Approved}) \<and>
   post_transactions (shop Available []) ''I1'' '''' ''T1'' 5 = (Inl Internal, shop Available [])"
  by (simp add: route_defs example_defs)

section \<open>Cancelling or returning\<close>

text \<open>
  Claim C7. A successful \<open>CancelOrReturn\<close> cancels every transaction of the item that
  was pending or approved, the borrower's own and every other one, leaves all other
  transactions as they were, and the item is available afterwards.
\<close>

theorem cancel_cascades:
  assumes "post_transactions_cancel s itemId borrowerId = (Inr r, s')"
  shows "length (transactions s') = length (transactions s) \<and>
         (\<forall>k<length (transactions s).
            transactions s' ! k =
              (if t_itemId (transactions s ! k) = itemId \<and>
                  t_status (transactions s ! k) \<in> {Pending, Approved}
               then (transactions s ! k)\<lparr>t_status := Cancelled\<rparr>
               else transactions s ! k)) \<and>
         (\<exists>t\<in>set (transactions s).
            t_itemId t = itemId \<and> t_borrowerId t = borrowerId \<and>
            t_status t \<in> {Pending, Approved} \<and> r_transaction_id r = t_id t) \<and>
         (\<exists>item. find (\<lambda>it. i_id it = itemId) (items s') = Some item \<and>
                 i_status item = Available)"
proof -
  let ?mine = "\<lambda>t. t_itemId t = itemId \<and> t_borrowerId t = borrowerId \<and> is_active t"
  from cancel_success[OF assms] obtain t item where
    t: "find ?mine (transactions s) = Some t" and
    i: "find (\<lambda>it. i_id it = itemId) (items s) = Some item" and
    r: "r_transaction_id r = t_id t" and
    s': "s' = s\<lparr>items := update_first (\<lambda>it. i_id it = itemId)
                              (\<lambda>it. it\<lparr>i_status := Available\<rparr>) (items s),
                 transactions :=
                    update_many (\<lambda>t. t_itemId t = itemId \<and> is_active t)
                      (\<lambda>t. t\<lparr>t_status := Cancelled\<rparr>) (transactions s)\<rparr>"
    by blast
  from s' have len: "length (transactions s') = length (transactions s)"
    by (simp add: update_many_def)
  from s' have nth: "\<forall>k<length (transactions s).
            transactions s' ! k =
              (if t_itemId (transactions s ! k) = itemId \<and>
                  t_status (transactions s ! k) \<in> {Pending, Approved}
               then (transactions s ! k)\<lparr>t_status := Cancelled\<rparr>
               else transactions s ! k)"
    by (simp add: update_many_def is_active_def)
  from find_Some_split[OF t] obtain ys zs where
    "transactions s = ys @ t # zs" "?mine t" by blast
  then have "t \<in> set (transactions s)" and "t_itemId t = itemId"
    and "t_borrowerId t = borrowerId" and "t_status t \<in> {Pending, Approved}"
    by (simp_all add: is_active_def)
  with r have prim: "\<exists>t\<in>set (transactions s).
            t_itemId t = itemId \<and> t_borrowerId t = borrowerId \<and>
            t_status t \<in> {Pending, Approved} \<and> r_transaction_id r = t_id t"
    by (intro bexI[of _ t]) simp_all
  have "find (\<lambda>it. i_id it = itemId) (items s') =
        map_option (\<lambda>it. it\<lparr>i_status := Available\<rparr>) (find (\<lambda>it. i_id it = itemId) (items s))"
    unfolding s' by (simp add: find_update_first)
  with i have av: "\<exists>item. find (\<lambda>it. i_id it = itemId) (items s') = Some item \<and>
                 i_status item = Available"
    by simp
  from len nth prim av show ?thesis by (intro conjI)
qed

theorem cancel_cascades_witness:
  "post_transactions_cancel
     (shop Borrowed [request ''T1'' ''U2'' Approved, request ''T2'' ''U3'' Pending,
                     request ''T0'' ''U2'' Rejected]) ''I1'' ''U2''
   = (Inr \<lparr>r_transaction_id = ''T1'', r_transaction_itemId = ''I1'',
           r_transaction_status = Cancelled, r_borrower = Some bob, r_lender = Some ann,
           r_item_id = ''I1'', r_item_name = ''Drill'', r_item_status = Available\<rparr>,
      shop Available [request ''T1'' ''U2'' Cancelled, request ''T2'' ''U3'' Cancelled,
                      request ''T0'' ''U2'' Rejected]) \<and>
   transactions (shop Available [request ''T1'' ''U2'' Cancelled, request ''T2'' ''U3'' Cancelled,
                      request ''T0'' ''U2'' Rejected]) ! 1
     = (request ''T2'' ''U3'' Pending)\<lparr>t_status := Cancelled\<rparr>"
proof -
  have h: "post_transactions_cancel
     (shop Borrowed [request ''T1'' ''U2'' Approved, request ''T2'' ''U3'' Pending,
                     request ''T0'' ''U2'' Rejected]) ''I1'' ''U2''
   = (Inr \<lparr>r_transaction_id = ''T1'', r_transaction_itemId = ''I1'',
           r_transaction_status = Cancelled, r_borrower = Some bob, r_lender = Some ann,
           r_item_id = ''I1'', r_item_name = ''Drill'', r_item_status = Available\<rparr>,
      shop Available [request ''T1'' ''U2'' Cancelled, request ''T2'' ''U3'' Cancelled,
                      request ''T0'' ''U2'' Rejected])"
    by (simp add: route_defs example_defs)
  have "transactions (shop Borrowed [request ''T1'' ''U2'' Approved, request ''T2'' ''U3'' Pending,
                     request ''T0'' ''U2'' Rejected]) ! 1 = request ''T2'' ''U3'' Pending"
    and "t_itemId (request ''T2'' ''U3'' Pending) = ''I1''"
    and "t_status (request ''T2'' ''U3'' Pending) \<in> {Pending, Approved}"
    and "(1::nat) < length (transactions (shop Borrowed [request ''T1'' ''U2'' Approved,
                     request ''T2'' ''U3'' Pending, request ''T0'' ''U2'' Rejected]))"
    by (simp_all add: example_defs)
  with cancel_cascades[OF h]
  have "transactions (shop Available [request ''T1'' ''U2'' Cancelled, request ''T2'' ''U3'' Cancelled,
                      request ''T0'' ''U2'' Rejected]) ! 1
     = (request ''T2'' ''U3'' Pending)\<lparr>t_status := Cancelled\<rparr>"
    by presburger
  with h show ?thesis by (rule conjI)
qed

text \<open>
  Claim C9. After a successful \<open>CancelOrReturn\<close>, the same call again fails with
  \<open>NotFound(active_transaction)\<close>, changes nothing, and the item is available.
\<close>

theorem cancel_twice:
  assumes "post_transactions_cancel s itemId borrowerId = (Inr r, s')"
  shows "post_transactions_cancel s' itemId borrowerId = (Inl NotFound_active_transaction, s') \<and>
         (\<exists>item. find (\<lambda>it. i_id it = itemId) (items s') = Some item \<and>
                 i_status item = Available)"
proof -
  let ?mine = "\<lambda>t. t_itemId t = itemId \<and> t_borrowerId t = borrowerId \<and> is_active t"
  from cancel_success[OF assms] obtain item where
    i: "find (\<lambda>it. i_id it = itemId) (items s) = Some item" and
    s': "s' = s\<lparr>items := update_first (\<lambda>it. i_id it = itemId)
                              (\<lambda>it. it\<lparr>i_status := Available\<rparr>) (items s),
                 transactions :=
                    update_many (\<lambda>t. t_itemId t = itemId \<and> is_active t)
                      (\<lambda>t. t\<lparr>t_status := Cancelled\<rparr>) (transactions s)\<rparr>"
    by blast
  have "transactions s' = update_many (\<lambda>t. t_itemId t = itemId \<and> is_active t)
                      (\<lambda>t. t\<lparr>t_status := Cancelled\<rparr>) (transactions s)"
    unfolding s' by simp
  then have "\<forall>t\<in>set (transactions s'). \<not> ?mine t"
    using update_many_cancel_inactive by fastforce
  then have "find ?mine (transactions s') = None"
    by (simp add: find_None_iff_set)
  then have 1: "post_transactions_cancel s' itemId borrowerId = (Inl NotFound_active_transaction, s')"
    by (rule cancel_no_claim)
  have "find (\<lambda>it. i_id it = itemId) (items s') =
        map_option (\<lambda>it. it\<lparr>i_status := Available\<rparr>) (find (\<lambda>it. i_id it = itemId) (items s))"
    unfolding s' by (simp add: find_update_first)
  with i 1 show ?thesis by simp
qed

theorem cancel_twice_witness:
  "post_transactions_cancel (shop Available [request ''T1'' ''U2'' Pending]) ''I1'' ''U2''
   = (Inr \<lparr>r_transaction_id = ''T1'', r_transaction_itemId = ''I1'',
           r_transaction_status = Cancelled, r_borrower = Some bob, r_lender = Some ann,
           r_item_id = ''I1'', r_item_name = ''Drill'', r_item_status = Available\<rparr>,
      shop Available [request ''T1'' ''U2'' Cancelled]) \<and>
   post_transactions_cancel (shop Available [request ''T1'' ''U2'' Cancelled]) ''I1'' ''U2''
   = (Inl NotFound_active_transaction, shop Available [request ''T1'' ''U2'' Cancelled]) \<and>
   (\<exists>item. find (\<lambda>it. i_id it = ''I1'')
             (items (shop Available [request ''T1'' ''U2'' Cancelled])) = Some item \<and>
           i_status item = Available)"
proof -
  have h: "post_transactions_cancel (shop Available [request ''T1'' ''U2'' Pending]) ''I1'' ''U2''
   = (Inr \<lparr>r_transaction_id = ''T1'', r_transaction_itemId = ''I1'',
           r_transaction_status = Cancelled, r_borrower = Some bob, r_lender = Some ann,
           r_item_id = ''I1'', r_item_name = ''Drill'', r_item_status = Available\<rparr>,
      shop Available [request ''T1'' ''U2'' Cancelled])"
    by (simp add: route_defs example_defs)
  from h cancel_twice[OF h] show ?thesis by (rule conjI)
qed

end
